theory Spec2Isabelle
  imports Main
begin

section \<open>The Video table\<close>

text \<open>
  The server keeps its jobs in the Sequelize model \<open>Video\<close>. A row carries the columns
  the model declares plus the primary key Sequelize adds. Nullable columns are options
  (\<open>None\<close> is SQL NULL), \<open>scheduledTime\<close> is a time value in milliseconds since the
  epoch, and \<open>status\<close> is the text column the source compares with the literals
  \<open>'Pending'\<close>, \<open>'Uploading'\<close>, \<open>'Done'\<close> and \<open>'Failed'\<close>.
\<close>

type_synonym message = string

record video =
  id_col :: int
  driveFileId :: string
  title :: "string option"
  description :: "string option"
  tags :: "string option"
  hashtags :: "string option"
  thumbnail :: "string option"
  firstComment :: "string option"
  scheduledTime :: int
  status :: string
  youtubeId :: "string option"
  error :: "string option"

abbreviation Pending :: string where "Pending \<equiv> ''Pending''"
abbreviation Uploading :: string where "Uploading \<equiv> ''Uploading''"
abbreviation Done :: string where "Done \<equiv> ''Done''"
abbreviation Failed :: string where "Failed \<equiv> ''Failed''"

text \<open>
  The table is the list of its rows together with the next value of the key sequence.
\<close>

record db =
  videos :: "video list"
  next_id :: int

definition count_uploading :: "video list \<Rightarrow> nat" where
  "count_uploading rows = length (filter (\<lambda>r. status r = Uploading) rows)"

subsection \<open>Queries\<close>

text \<open>\<open>Video.findOne({ where: { status: st } })\<close>: some row with that status, here the first.\<close>

definition findOne_status :: "string \<Rightarrow> video list \<Rightarrow> video option" where
  "findOne_status st rows = find (\<lambda>r. status r = st) rows"

text \<open>
  \<open>findOne\<close> ordered by \<open>scheduledTime\<close> ascending: a row of least \<open>scheduledTime\<close>;
  among equal times the first in table order.
\<close>

fun earliest :: "video list \<Rightarrow> video option" where
  "earliest [] = None"
| "earliest (r # rs) =
     (case earliest rs of
        None \<Rightarrow> Some r
      | Some r' \<Rightarrow> if scheduledTime r \<le> scheduledTime r' then Some r else Some r')"

definition is_due :: "int \<Rightarrow> video \<Rightarrow> bool" where
  "is_due now r \<longleftrightarrow> status r = Pending \<and> scheduledTime r \<le> now"

definition findOne_due :: "int \<Rightarrow> video list \<Rightarrow> video option" where
  "findOne_due now rows = earliest (filter (is_due now) rows)"

subsection \<open>Writes\<close>

text \<open>
  \<open>nextJob.save()\<close> issues an UPDATE of the columns assigned on the instance, keyed by
  the instance's primary key. The scheduling loop assigns \<open>status\<close>, \<open>youtubeId\<close> and
  \<open>error\<close> only.
\<close>

definition save :: "video \<Rightarrow> video list \<Rightarrow> video list" where
  "save inst rows =
     map (\<lambda>r. if id_col r = id_col inst
               then r\<lparr>status := status inst, youtubeId := youtubeId inst, error := error inst\<rparr>
               else r) rows"

text \<open>
  \<open>DELETE /api/schedule/:id\<close> runs
  \<open>Video.destroy({ where: { id: req.params.id, status: 'Pending' } })\<close>.
\<close>

definition destroy_pending :: "int \<Rightarrow> video list \<Rightarrow> video list" where
  "destroy_pending i rows = filter (\<lambda>r. \<not> (id_col r = i \<and> status r = Pending)) rows"

definition delete_schedule :: "int \<Rightarrow> db \<Rightarrow> db" where
  "delete_schedule i d = d\<lparr>videos := destroy_pending i (videos d)\<rparr>"

subsection \<open>Start-up\<close>

text \<open>
  \<open>initDB\<close> connects, synchronises the schema and then resets the rows a previous
  process left in \<open>'Uploading'\<close>:
  \<open>Video.update({ status: 'Pending', error: 'Server restarted during upload' },
  { where: { status: 'Uploading' } })\<close>. The whole body sits in one \<open>try\<close>, so a failure
  of \<open>authenticate\<close> or \<open>sync\<close> is logged and the reset is skipped.
\<close>

definition reset_stuck :: "video list \<Rightarrow> video list" where
  "reset_stuck rows =
     map (\<lambda>r. if status r = Uploading
               then r\<lparr>status := Pending, error := Some ''Server restarted during upload''\<rparr>
               else r) rows"

record connection =
  authenticate :: "message + unit"
  sync :: "message + unit"

definition initDB :: "connection \<Rightarrow> db \<Rightarrow> db" where
  "initDB c d =
     (case authenticate c of
        Inl e \<Rightarrow> d
      | Inr u \<Rightarrow>
          (case sync c of
             Inl e \<Rightarrow> d
           | Inr u' \<Rightarrow> d\<lparr>videos := reset_stuck (videos d)\<rparr>))"

section \<open>JavaScript values the server handles\<close>

text \<open>
  A nullable string is truthy when it is present and not empty (\<open>if (thumbnailData)\<close>,
  \<open>description || '...'\<close>).
\<close>

definition truthy :: "string option \<Rightarrow> bool" where
  "truthy s = (case s of None \<Rightarrow> False | Some t \<Rightarrow> t \<noteq> [])"

definition or_else :: "string option \<Rightarrow> string \<Rightarrow> string" where
  "or_else s d = (case s of None \<Rightarrow> d | Some t \<Rightarrow> if t = [] then d else t)"

text \<open>\<open>String.prototype.split\<close> with a one-character separator.\<close>

fun split_on :: "char \<Rightarrow> string \<Rightarrow> string list" where
  "split_on c [] = [] # []"
| "split_on c (x # xs) =
     (if x = c then [] # split_on c xs
      else (case split_on c xs of
              [] \<Rightarrow> [x] # []
            | w # ws \<Rightarrow> (x # w) # ws))"

text \<open>\<open>arr[i]\<close>: \<open>undefined\<close> beyond the end.\<close>

definition nth_opt :: "'a list \<Rightarrow> nat \<Rightarrow> 'a option" where
  "nth_opt xs i = (if i < length xs then Some (xs ! i) else None)"

text \<open>What \<open>JSON.parse\<close> yields; numbers are restricted to integers.\<close>

datatype json =
    JNull
  | JBool bool
  | JNum int
  | JStr string
  | JArr "json list"
  | JObj "(string \<times> json) list"

definition falsy :: "json \<Rightarrow> bool" where
  "falsy v = (v = JNull \<or> v = JBool False \<or> v = JNum 0 \<or> v = JStr [])"

function digits :: "nat \<Rightarrow> string" where
  "digits n = (if n < 10 then [char_of (48 + n)] else digits (n div 10) @ [char_of (48 + n mod 10)])"
  by pat_completeness auto
termination
  by (relation "measure id") auto

definition show_int :: "int \<Rightarrow> string" where
  "show_int i = (if i < 0 then CHR ''-'' # digits (nat (- i)) else digits (nat i))"

fun intercalate :: "string \<Rightarrow> string list \<Rightarrow> string" where
  "intercalate sep [] = []"
| "intercalate sep [s] = s"
| "intercalate sep (s # t # ts) = s @ sep @ intercalate sep (t # ts)"

text \<open>
  \<open>ToString\<close> on a parsed value, and \<open>Array.prototype.join\<close>, which prints \<open>null\<close>
  elements as the empty string.
\<close>

fun to_string :: "json \<Rightarrow> string" where
  "to_string JNull = ''null''"
| "to_string (JBool b) = (if b then ''true'' else ''false'')"
| "to_string (JNum i) = show_int i"
| "to_string (JStr s) = s"
| "to_string (JArr xs) = intercalate '','' (map (\<lambda>x. if x = JNull then [] else to_string x) xs)"
| "to_string (JObj kvs) = ''[object Object]''"

definition join :: "string \<Rightarrow> json list \<Rightarrow> string" where
  "join sep xs = intercalate sep (map (\<lambda>x. if x = JNull then [] else to_string x) xs)"

section \<open>The world outside the process\<close>

text \<open>
  Every call that leaves the process (the settings row, Drive, YouTube, the Discord
  webhook, \<open>JSON.parse\<close>) is a field of \<open>world\<close>: what the call answers, with
  \<open>Inl\<close> the message of the error it throws or rejects with.
\<close>

record world =
  google_tokens :: "message + string option"
  JSON_parse :: "string \<Rightarrow> json option"
  drive_files_get :: "string \<Rightarrow> message + string"
  videos_insert :: "string \<Rightarrow> string \<Rightarrow> json \<Rightarrow> string \<Rightarrow> message + string"
  thumbnails_set :: "string \<Rightarrow> string \<Rightarrow> message + unit"
  commentThreads_insert :: "string \<Rightarrow> string \<Rightarrow> message + string"
  comments_setManagementStatus :: "string \<Rightarrow> message + unit"
  JSON_stringify :: "json \<Rightarrow> string"
  gemini_generateContent :: "string \<Rightarrow> message + string"
  DISCORD_WEBHOOK_URL :: "string option"
  axios_post :: "string \<Rightarrow> string \<Rightarrow> string option \<Rightarrow> string \<Rightarrow> message + unit"

text \<open>
  \<open>getStoredTokens\<close>: \<open>Setting.findOne\<close> for the key \<open>google_tokens\<close>, then
  \<open>s ? JSON.parse(s.value) : null\<close>.
\<close>

definition getStoredTokens :: "world \<Rightarrow> message + json" where
  "getStoredTokens w =
     (case google_tokens w of
        Inl e \<Rightarrow> Inl e
      | Inr None \<Rightarrow> Inr JNull
      | Inr (Some v) \<Rightarrow>
          (case JSON_parse w v of
             None \<Rightarrow> Inl ''Unexpected token in JSON''
           | Some t \<Rightarrow> Inr t))"

text \<open>What a run did remotely, in order.\<close>

datatype effect =
    VideoInserted string
  | ThumbnailSet string
  | CommentPosted string
  | CommentPinned string
  | WebhookPosted string

section \<open>Notification\<close>

text \<open>
  \<open>sendDiscordNotification(status, videoTitle, details)\<close> returns at once without a
  webhook URL; otherwise it posts inside a \<open>try\<close> whose \<open>catch\<close> only logs. The file
  that defines it never imports \<open>axios\<close>, so there the post always ends in the
  \<open>catch\<close>; \<open>axios_post\<close> covers that answer and every other.
\<close>

definition sendDiscordNotification ::
  "world \<Rightarrow> string \<Rightarrow> string option \<Rightarrow> string \<Rightarrow> (message + unit) \<times> effect list" where
  "sendDiscordNotification w st videoTitle details =
     (case DISCORD_WEBHOOK_URL w of
        None \<Rightarrow> (Inr (), [])
      | Some url \<Rightarrow>
          if url = [] then (Inr (), [])
          else (case axios_post w url st videoTitle
                       (if details = [] then ''No extra details'' else details) of
                  Inl e \<Rightarrow> (Inr (), [])
                | Inr u \<Rightarrow> (Inr (), [WebhookPosted st])))"

section \<open>The upload pipeline\<close>

text \<open>
  The block that reads the stored tag texts: both parses and the \<open>join\<close> sit in one
  \<open>try\<close>; whatever was assigned before the throw stays.
\<close>

definition parse_tags ::
  "world \<Rightarrow> string option \<Rightarrow> string option \<Rightarrow> string \<Rightarrow> string \<times> json" where
  "parse_tags w tagsStr hashtagsStr desc =
     (case (if truthy tagsStr then JSON_parse w (or_else tagsStr []) else Some (JArr [])) of
        None \<Rightarrow> (desc, JArr [])
      | Some tg \<Rightarrow>
          if truthy hashtagsStr
          then (case JSON_parse w (or_else hashtagsStr []) of
                  Some (JArr hs) \<Rightarrow> (desc @ [CHR 0x0A, CHR 0x0A] @ join '' '' hs, tg)
                | _ \<Rightarrow> (desc, tg))
          else (desc, tg))"

text \<open>\<open>tags.slice(0, 50)\<close>: arrays and strings have \<open>slice\<close>, anything else throws.\<close>

definition slice_50 :: "json \<Rightarrow> message + json" where
  "slice_50 v =
     (case v of
        JArr xs \<Rightarrow> Inr (JArr (take 50 xs))
      | JStr s \<Rightarrow> Inr (JStr (take 50 s))
      | _ \<Rightarrow> Inl ''tags.slice is not a function'')"

text \<open>The block under \<open>// Handle Thumbnail if provided\<close>.\<close>

definition set_thumbnail :: "world \<Rightarrow> string \<Rightarrow> string option \<Rightarrow> effect list" where
  "set_thumbnail w videoId thumbnailData =
     (if truthy thumbnailData
      then (case nth_opt (split_on CHR '','' (or_else thumbnailData [])) 1 of
              None \<Rightarrow> []
            | Some base64Data \<Rightarrow>
                if base64Data = [] then []
                else (case thumbnails_set w videoId base64Data of
                        Inl e \<Rightarrow> []
                      | Inr u \<Rightarrow> [ThumbnailSet videoId]))
      else [])"

text \<open>The block under \<open>// Handle First Comment and Pin\<close>, as the first server file has it.\<close>

definition post_comment :: "world \<Rightarrow> string \<Rightarrow> string option \<Rightarrow> effect list" where
  "post_comment w videoId comment =
     (if truthy comment
      then (case commentThreads_insert w videoId (or_else comment []) of
              Inl e \<Rightarrow> []
            | Inr commentId \<Rightarrow> [CommentPosted videoId])
      else [])"

definition processUpload ::
  "world \<Rightarrow> string \<Rightarrow> string option \<Rightarrow> string option \<Rightarrow> string option \<Rightarrow> string option
     \<Rightarrow> string option \<Rightarrow> string option \<Rightarrow> (message + string) \<times> effect list" where
  "processUpload w fileId ttl desc thumbnailData comment tagsStr hashtagsStr =
     (case getStoredTokens w of
        Inl e \<Rightarrow> (Inl e, [])
      | Inr tokens \<Rightarrow>
          if falsy tokens then (Inl ''No tokens found. Please connect Google account.'', [])
          else
            (case parse_tags w tagsStr hashtagsStr (or_else desc ''Uploaded via V-UPLOAD AI'') of
               (finalDescription, tgs) \<Rightarrow>
                 (case drive_files_get w fileId of
                    Inl e \<Rightarrow> (Inl e, [])
                  | Inr media \<Rightarrow>
                      (case slice_50 tgs of
                         Inl e \<Rightarrow> (Inl e, [])
                       | Inr tg50 \<Rightarrow>
                           (case videos_insert w (take 100 (or_else ttl ''Untitled Video''))
                                  finalDescription tg50 media of
                              Inl e \<Rightarrow> (Inl e, [])
                            | Inr videoId \<Rightarrow>
                                (Inr videoId,
                                 VideoInserted videoId
                                   # set_thumbnail w videoId thumbnailData
                                   @ post_comment w videoId comment))))))"

subsection \<open>The second server file\<close>

text \<open>
  The other server file of the repository has no tags and pins the comment after
  posting it; the pin shares the comment's \<open>try\<close>.
\<close>

definition post_and_pin_comment :: "world \<Rightarrow> string \<Rightarrow> string option \<Rightarrow> effect list" where
  "post_and_pin_comment w videoId comment =
     (if truthy comment
      then (case commentThreads_insert w videoId (or_else comment []) of
              Inl e \<Rightarrow> []
            | Inr commentId \<Rightarrow>
                CommentPosted videoId
                  # (case comments_setManagementStatus w commentId of
                       Inl e \<Rightarrow> []
                     | Inr u \<Rightarrow> [CommentPinned commentId]))
      else [])"

definition processUpload_001 ::
  "world \<Rightarrow> string \<Rightarrow> string option \<Rightarrow> string option \<Rightarrow> string option \<Rightarrow> string option
     \<Rightarrow> (message + string) \<times> effect list" where
  "processUpload_001 w fileId ttl desc thumbnailData comment =
     (case getStoredTokens w of
        Inl e \<Rightarrow> (Inl e, [])
      | Inr tokens \<Rightarrow>
          if falsy tokens then (Inl ''No tokens found. Please connect Google account.'', [])
          else
            (case drive_files_get w fileId of
               Inl e \<Rightarrow> (Inl e, [])
             | Inr media \<Rightarrow>
                 (case videos_insert w (take 100 (or_else ttl ''Untitled Video''))
                        (or_else desc ''Uploaded via V-UPLOAD AI'') JNull media of
                    Inl e \<Rightarrow> (Inl e, [])
                  | Inr videoId \<Rightarrow>
                      (Inr videoId,
                       VideoInserted videoId
                         # set_thumbnail w videoId thumbnailData
                         @ post_and_pin_comment w videoId comment))))"

section \<open>The scheduling loop\<close>

text \<open>
  One run of the \<open>setInterval\<close> callback, first as it goes when nothing else touches
  the table meanwhile: \<open>tick_begin\<close> is the callback up to its first \<open>save\<close>, and
  \<open>tick_end\<close> from the call of \<open>processUpload\<close> to the last \<open>save\<close>. The trace lists
  what the callback did, in order. The callback awaits each of its store accesses and
  the timer does not wait for a running callback; \<open>resume\<close> below gives the callback
  one await at a time.
\<close>

datatype event =
    Persist video
  | Invoke video
  | Remote effect
  | Notify string

definition tick_begin :: "int \<Rightarrow> video list \<Rightarrow> video list \<times> video option" where
  "tick_begin now rows =
     (case findOne_status Uploading rows of
        Some activeJob \<Rightarrow> (rows, None)
      | None \<Rightarrow>
          (case findOne_due now rows of
             None \<Rightarrow> (rows, None)
           | Some nextJob \<Rightarrow>
               (save (nextJob\<lparr>status := Uploading\<rparr>) rows, Some (nextJob\<lparr>status := Uploading\<rparr>))))"

definition run_upload :: "world \<Rightarrow> video \<Rightarrow> (message + string) \<times> effect list" where
  "run_upload w j =
     processUpload w (driveFileId j) (title j) (description j) (thumbnail j)
       (firstComment j) (tags j) (hashtags j)"

text \<open>
  The inner \<open>try\<close>: the assignments for success and the success notification are inside
  it, so an error of either the upload or that notification enters the \<open>catch\<close> with
  the instance as it then is.
\<close>

definition attempt :: "world \<Rightarrow> video \<Rightarrow> (message \<times> video + video) \<times> event list" where
  "attempt w nextJob =
     (case run_upload w nextJob of
        (Inl e, fx) \<Rightarrow> (Inl (e, nextJob), Invoke nextJob # map Remote fx)
      | (Inr ytId, fx) \<Rightarrow>
          (case sendDiscordNotification w ''Success'' (title nextJob)
                  (''Live at: https://youtu.be/'' @ ytId) of
             (Inl e, fx') \<Rightarrow>
               (Inl (e, nextJob\<lparr>status := Done, youtubeId := Some ytId, error := None\<rparr>),
                Invoke nextJob # map Remote fx @ Notify ''Success'' # map Remote fx')
           | (Inr u, fx') \<Rightarrow>
               (Inr (nextJob\<lparr>status := Done, youtubeId := Some ytId, error := None\<rparr>),
                Invoke nextJob # map Remote fx @ Notify ''Success'' # map Remote fx')))"

definition tick_end :: "world \<Rightarrow> video \<Rightarrow> video list \<Rightarrow> video list \<times> event list" where
  "tick_end w nextJob rows =
     (case attempt w nextJob of
        (Inr j, evs) \<Rightarrow> (save j rows, evs @ [Persist j])
      | (Inl (e, j), evs) \<Rightarrow>
          (case sendDiscordNotification w ''Failed'' (title j) e of
             (Inl e', fx) \<Rightarrow> (rows, evs @ Notify ''Failed'' # map Remote fx)
           | (Inr u, fx) \<Rightarrow>
               (save (j\<lparr>status := Failed, error := Some e\<rparr>) rows,
                evs @ Notify ''Failed'' # map Remote fx
                  @ [Persist (j\<lparr>status := Failed, error := Some e\<rparr>)])))"

definition tick :: "world \<Rightarrow> int \<Rightarrow> video list \<Rightarrow> video list \<times> event list" where
  "tick w now rows =
     (case tick_begin now rows of
        (rows', None) \<Rightarrow> (rows', [])
      | (rows', Some j) \<Rightarrow>
          (case tick_end w j rows' of
             (rows'', evs) \<Rightarrow> (rows'', Persist j # evs)))"

subsection \<open>The callback await by await\<close>

text \<open>
  Where a callback stands between two awaits: it has entered and asked for a row in
  \<open>'Uploading'\<close>; it has found none and asked for the next due row; it holds that row
  and has asked to save it as \<open>'Uploading'\<close>; it has saved and awaits the upload.
  \<open>resume\<close> continues a callback with the answer of the table as it is at that
  moment; \<open>None\<close> is the callback returning. \<open>now\<close> is the \<open>new Date()\<close> of the second
  query.
\<close>

datatype callback =
    Entered
  | Checked
  | Selected video
  | Awaiting video

fun resume :: "world \<Rightarrow> int \<Rightarrow> callback \<Rightarrow> video list \<Rightarrow> video list \<times> callback option" where
  "resume w now Entered rows =
     (case findOne_status Uploading rows of
        Some activeJob \<Rightarrow> (rows, None)
      | None \<Rightarrow> (rows, Some Checked))"
| "resume w now Checked rows =
     (case findOne_due now rows of
        None \<Rightarrow> (rows, None)
      | Some nextJob \<Rightarrow> (rows, Some (Selected nextJob)))"
| "resume w now (Selected nextJob) rows =
     (save (nextJob\<lparr>status := Uploading\<rparr>) rows, Some (Awaiting (nextJob\<lparr>status := Uploading\<rparr>)))"
| "resume w now (Awaiting nextJob) rows = (fst (tick_end w nextJob rows), None)"

text \<open>
  Several callbacks on one table: move \<open>(k, now)\<close> resumes callback \<open>k\<close>, if it has not
  returned.
\<close>

fun resume_at ::
  "world \<Rightarrow> nat \<times> int \<Rightarrow> video list \<times> callback option list
     \<Rightarrow> video list \<times> callback option list" where
  "resume_at w (k, now) (rows, cbs) =
     (if k < length cbs
      then (case cbs ! k of
              None \<Rightarrow> (rows, cbs)
            | Some cb \<Rightarrow>
                (case resume w now cb rows of
                   (rows', cb') \<Rightarrow> (rows', cbs[k := cb'])))
      else (rows, cbs))"

definition interleave ::
  "world \<Rightarrow> (nat \<times> int) list \<Rightarrow> video list \<times> callback option list
     \<Rightarrow> video list \<times> callback option list" where
  "interleave w moves st = fold (resume_at w) moves st"

section \<open>Creating jobs\<close>

text \<open>
  The body of a creation request, one field per key the routes read; \<open>None\<close> is an
  absent key. \<open>POST /api/schedule\<close> picks its eight keys out of the body.
  \<open>POST /api/schedule/bulk\<close> spreads each entry (\<open>...s\<close>) into what it hands to
  \<open>Video.bulkCreate\<close>, so there \<open>status\<close>, \<open>youtubeId\<close> and \<open>error\<close> of an entry reach
  the row as well. The key \<open>id\<close> of an entry is outside the model: keys come from the
  sequence.
\<close>

record body =
  b_driveFileId :: "string option"
  b_title :: "string option"
  b_description :: "string option"
  b_thumbnail :: "string option"
  b_firstComment :: "string option"
  b_tags :: "json option"
  b_hashtags :: "json option"
  b_scheduledTime :: "int option"
  b_status :: "string option"
  b_youtubeId :: "string option"
  b_error :: "string option"

text \<open>\<open>JSON.stringify(tags || [])\<close>.\<close>

definition stringify_or_empty :: "world \<Rightarrow> json option \<Rightarrow> string" where
  "stringify_or_empty w v =
     (case v of
        None \<Rightarrow> JSON_stringify w (JArr [])
      | Some x \<Rightarrow> if falsy x then JSON_stringify w (JArr []) else JSON_stringify w x)"

text \<open>
  \<open>driveFileId\<close> and \<open>scheduledTime\<close> are declared \<open>allowNull: false\<close>: without them
  the insert fails, the route answers 500 and no row is written.
\<close>

definition post_schedule :: "world \<Rightarrow> body \<Rightarrow> db \<Rightarrow> (message + video) \<times> db" where
  "post_schedule w b d =
     (case (b_driveFileId b, b_scheduledTime b) of
        (Some f, Some t) \<Rightarrow>
          (let row = \<lparr>id_col = next_id d, driveFileId = f, title = b_title b,
                      description = b_description b,
                      tags = Some (stringify_or_empty w (b_tags b)),
                      hashtags = Some (stringify_or_empty w (b_hashtags b)),
                      thumbnail = b_thumbnail b, firstComment = b_firstComment b,
                      scheduledTime = t, status = Pending, youtubeId = None, error = None\<rparr>
           in (Inr row, d\<lparr>videos := videos d @ [row], next_id := next_id d + 1\<rparr>))
      | _ \<Rightarrow> (Inl ''notNull Violation'', d))"

definition bulk_row :: "world \<Rightarrow> int \<Rightarrow> body \<Rightarrow> video option" where
  "bulk_row w i b =
     (case (b_driveFileId b, b_scheduledTime b) of
        (Some f, Some t) \<Rightarrow>
          Some \<lparr>id_col = i, driveFileId = f, title = b_title b,
                description = b_description b,
                tags = Some (stringify_or_empty w (b_tags b)),
                hashtags = Some (stringify_or_empty w (b_hashtags b)),
                thumbnail = b_thumbnail b, firstComment = b_firstComment b,
                scheduledTime = t,
                status = (case b_status b of None \<Rightarrow> Pending | Some st \<Rightarrow> st),
                youtubeId = b_youtubeId b, error = b_error b\<rparr>
      | _ \<Rightarrow> None)"

fun bulk_rows :: "world \<Rightarrow> int \<Rightarrow> body list \<Rightarrow> video list option" where
  "bulk_rows w i [] = Some []"
| "bulk_rows w i (b # bs) =
     (case bulk_row w i b of
        None \<Rightarrow> None
      | Some r \<Rightarrow> (case bulk_rows w (i + 1) bs of None \<Rightarrow> None | Some rs \<Rightarrow> Some (r # rs)))"

definition post_schedule_bulk :: "world \<Rightarrow> body list \<Rightarrow> db \<Rightarrow> (message + video list) \<times> db" where
  "post_schedule_bulk w bs d =
     (case bulk_rows w (next_id d) bs of
        None \<Rightarrow> (Inl ''notNull Violation'', d)
      | Some rs \<Rightarrow>
          (Inr rs, d\<lparr>videos := videos d @ rs, next_id := next_id d + int (length rs)\<rparr>))"

section \<open>The server as a whole\<close>

text \<open>
  The state an observer can poll is the table. Beside it the process holds the
  instances of the callbacks that still await their upload, and it remembers whether
  the \<open>initDB\<close> it called when it started has finished. \<open>Boot\<close> is a (re)start of the
  process: the instances are lost and \<open>initDB\<close> is called, not awaited. \<open>InitDB\<close> is
  that call finishing; the interval timer, the routes and \<open>initDB\<close> are not ordered by
  the code, so a tick or a request may come before it. \<open>Tick\<close> is a callback that
  reaches its first \<open>save\<close> uninterrupted.
\<close>

record server =
  store :: db
  running :: "video list"
  starting :: bool

datatype request =
    Tick int
  | Settle world nat
  | Post_schedule world body
  | Post_schedule_bulk world "body list"
  | Delete_schedule int
  | Boot
  | InitDB connection

fun step :: "request \<Rightarrow> server \<Rightarrow> server" where
  "step (Tick now) s =
     (case tick_begin now (videos (store s)) of
        (rows, None) \<Rightarrow> s\<lparr>store := (store s)\<lparr>videos := rows\<rparr>\<rparr>
      | (rows, Some j) \<Rightarrow> s\<lparr>store := (store s)\<lparr>videos := rows\<rparr>, running := running s @ [j]\<rparr>)"
| "step (Settle w k) s =
     (if k < length (running s)
      then s\<lparr>store := (store s)\<lparr>videos := fst (tick_end w (running s ! k) (videos (store s)))\<rparr>,
             running := take k (running s) @ drop (Suc k) (running s)\<rparr>
      else s)"
| "step (Post_schedule w b) s = s\<lparr>store := snd (post_schedule w b (store s))\<rparr>"
| "step (Post_schedule_bulk w bs) s = s\<lparr>store := snd (post_schedule_bulk w bs (store s))\<rparr>"
| "step (Delete_schedule i) s = s\<lparr>store := delete_schedule i (store s)\<rparr>"
| "step Boot s = s\<lparr>running := [], starting := True\<rparr>"
| "step (InitDB c) s =
     (if starting s then s\<lparr>store := initDB c (store s), starting := False\<rparr> else s)"

definition run :: "request list \<Rightarrow> server \<Rightarrow> server" where
  "run rs s = fold step rs s"

section \<open>Metadata suggestion\<close>

text \<open>
  \<open>generateMetadata(filename)\<close>: everything from \<open>getGenerativeModel\<close> to
  \<open>JSON.parse\<close> is inside one \<open>try\<close>, and the \<open>catch\<close> returns a literal object.
  \<open>gemini_generateContent\<close> answers the prompt built around the filename with the
  response text, or with the error of whichever call threw.
\<close>

text \<open>\<open>.replace(/```json|```/g, '')\<close>: leftmost matches, the longer alternative first.\<close>

function strip_fences :: "string \<Rightarrow> string" where
  "strip_fences [] = []"
| "strip_fences (c # cs) =
     (if take 7 (c # cs) = ''```json'' then strip_fences (drop 7 (c # cs))
      else if take 3 (c # cs) = ''```'' then strip_fences (drop 3 (c # cs))
      else c # strip_fences cs)"
  by pat_completeness auto
termination
  by (relation "measure length") auto

text \<open>\<open>.trim()\<close>, for the white space of ASCII.\<close>

definition is_space :: "char \<Rightarrow> bool" where
  "is_space c \<longleftrightarrow> c \<in> set [CHR '' '', CHR 0x09, CHR 0x0A, CHR 0x0B, CHR 0x0C, CHR 0x0D]"

definition trim :: "string \<Rightarrow> string" where
  "trim s = rev (dropWhile is_space (rev (dropWhile is_space s)))"

definition fallback :: "string \<Rightarrow> json" where
  "fallback filename =
     JObj [(''title'', JStr filename),
           (''description'', JStr ''Uploaded via V-UPLOAD AI''),
           (''tags'', JArr [JStr ''automation'', JStr ''uploader'']),
           (''hashtags'', JArr [JStr ''#VUpload'', JStr ''#Automation''])]"

definition generateMetadata :: "world \<Rightarrow> string \<Rightarrow> message + json" where
  "generateMetadata w filename =
     (case gemini_generateContent w filename of
        Inl e \<Rightarrow> Inr (fallback filename)
      | Inr text \<Rightarrow>
          (case JSON_parse w (trim (strip_fences text)) of
             None \<Rightarrow> Inr (fallback filename)
           | Some data \<Rightarrow> Inr data))"

text \<open>The second server file returns a shorter literal.\<close>

definition fallback_001 :: "string \<Rightarrow> json" where
  "fallback_001 filename =
     JObj [(''title'', JStr filename),
           (''description'', JStr ''Uploaded via V-UPLOAD AI'')]"

definition generateMetadata_001 :: "world \<Rightarrow> string \<Rightarrow> message + json" where
  "generateMetadata_001 w filename =
     (case gemini_generateContent w filename of
        Inl e \<Rightarrow> Inr (fallback_001 filename)
      | Inr text \<Rightarrow>
          (case JSON_parse w (trim (strip_fences text)) of
             None \<Rightarrow> Inr (fallback_001 filename)
           | Some data \<Rightarrow> Inr data))"

text \<open>The generative call fails: it throws, or its text does not parse.\<close>

definition suggestion_fails :: "world \<Rightarrow> string \<Rightarrow> bool" where
  "suggestion_fails w filename =
     (case gemini_generateContent w filename of
        Inl e \<Rightarrow> True
      | Inr text \<Rightarrow> JSON_parse w (trim (strip_fences text)) = None)"

section \<open>Dates in the browser\<close>

text \<open>
  A \<open>Date\<close> holds a time value in milliseconds since the epoch; \<open>None\<close> is the
  invalid date, and a numeric argument \<open>None\<close> is \<open>NaN\<close>. Local time is the time
  value plus the zone offset \<open>tz\<close>, taken constant over the days concerned, and time
  values stay far from the ends of the range a \<open>Date\<close> can hold. The functions follow
  the language definition: \<open>setDate\<close> keeps year, month and time of day and replaces the
  day of the month, counting on from the first of that month (\<open>MakeDay\<close>);
  \<open>setHours\<close> keeps the day and replaces the time of day (\<open>MakeTime\<close>).
\<close>

definition msPerDay :: int where
  "msPerDay = 86400000"

definition Day :: "int \<Rightarrow> int" where
  "Day t = t div msPerDay"

definition TimeWithinDay :: "int \<Rightarrow> int" where
  "TimeWithinDay t = t mod msPerDay"

definition WeekDay :: "int \<Rightarrow> int" where
  "WeekDay t = (Day t + 4) mod 7"

text \<open>
  The Gregorian calendar by months. Months are counted from March of the year 0, so
  that the leap day ends a year: \<open>month_start n\<close> is the day number, from the epoch,
  of the first day of month \<open>n\<close>. \<open>month_seek\<close> walks from a guess to the month that
  holds a day, and the day of the month counts on from the first of that month.
\<close>

definition year_days :: "int \<Rightarrow> int" where
  "year_days y = 365 * y + y div 4 - y div 100 + y div 400"

definition month_days :: "int \<Rightarrow> int" where
  "month_days mp = (153 * mp + 2) div 5"

definition month_start :: "int \<Rightarrow> int" where
  "month_start n = year_days (n div 12) + month_days (n mod 12) - 719468"

function month_seek :: "int \<Rightarrow> int \<Rightarrow> int" where
  "month_seek z n =
     (if z < month_start n then month_seek z (n - 1)
      else if month_start (n + 1) \<le> z then month_seek z (n + 1)
      else n)"
  by pat_completeness auto
termination
proof (relation "measure (\<lambda>(z, n). nat (max (month_start n - z) 0)
                                   + nat (max (z + 1 - month_start (n + 1)) 0))")
  have step: "month_start k < month_start (k + 1)" for k
  proof -
    have years: "year_days y + 364 \<le> year_days (y + 1)" for y
    proof -
      define a b c a' b' c' where "a = y div 4" and "b = y div 400" and "c = y div 100"
        and "a' = (y + 1) div 4" and "b' = (y + 1) div 400" and "c' = (y + 1) div 100"
      have "y div 4 \<le> (y + 1) div 4" by (rule zdiv_mono1) simp_all
      then have 1: "a \<le> a'" by (simp only: a_def a'_def)
      have "y div 400 \<le> (y + 1) div 400" by (rule zdiv_mono1) simp_all
      then have 2: "b \<le> b'" by (simp only: b_def b'_def)
      have "(y + 1) div 100 \<le> (y + 100) div 100" by (rule zdiv_mono1) simp_all
      also have "(y + 100) div 100 = y div 100 + 1" by simp
      finally have 3: "c' \<le> c + 1" by (simp only: c_def c'_def)
      have "365 * y + a - c + b + 364 \<le> 365 * (y + 1) + a' - c' + b'"
        using 1 2 3 by (simp add: algebra_simps)
      then show ?thesis
        by (simp only: year_days_def a_def b_def c_def a'_def b'_def c'_def)
    qed
    have months: "month_days mp + 30 \<le> month_days (mp + 1)" for mp
    proof -
      have "(153 * mp + 2) div 5 + 30 = (153 * mp + 2 + 5 * 30) div 5" by simp
      also have "\<dots> \<le> (153 * (mp + 1) + 2) div 5" by (rule zdiv_mono1) simp_all
      finally show ?thesis by (simp only: month_days_def)
    qed
    show ?thesis
    proof (cases "k mod 12 = 11")
      case True
      have "k + 1 = (k div 12 + 1) * 12 + (k mod 12 - 11)" by (simp add: algebra_simps)
      then have eq: "k + 1 = (k div 12 + 1) * 12" using True by simp
      have "(k + 1) div 12 = ((k div 12 + 1) * 12) div 12"
        and "(k + 1) mod 12 = ((k div 12 + 1) * 12) mod 12"
        by (rule arg_cong [OF eq])+
      then have d: "(k + 1) div 12 = k div 12 + 1" and m: "(k + 1) mod 12 = 0"
        by simp_all
      have e: "month_days 11 = 337" "month_days 0 = 0" by (simp_all add: month_days_def)
      show ?thesis
        using years [of "k div 12"] e unfolding month_start_def d m True by linarith
    next
      case False
      have r: "0 \<le> k mod 12" "k mod 12 < 12" by simp_all
      then have lt: "k mod 12 + 1 < 12" using False by linarith
      define q r' where "q = k div 12" and "r' = k mod 12 + 1"
      have qr: "k + 1 = q * 12 + r'" by (simp add: q_def r'_def algebra_simps)
      have r0: "0 \<le> r'" and r12: "r' < 12" using r lt by (simp_all add: r'_def)
      have "(q * 12 + r') div 12 = q + r' div 12" by simp
      moreover have "r' div 12 = 0" using r0 r12 by (rule div_pos_pos_trivial)
      ultimately have "(k + 1) div 12 = q" by (simp only: qr)
      then have d: "(k + 1) div 12 = k div 12" by (simp only: q_def)
      have "(q * 12 + r') mod 12 = r' mod 12" by simp
      moreover have "r' mod 12 = r'" using r0 r12 by (rule mod_pos_pos_trivial)
      ultimately have "(k + 1) mod 12 = r'" by (simp only: qr)
      then have m: "(k + 1) mod 12 = k mod 12 + 1" by (simp only: r'_def)
      show ?thesis
        using months [of "k mod 12"] unfolding month_start_def d m by linarith
    qed
  qed
  show "wf (measure (\<lambda>(z, n). nat (max (month_start n - z) 0)
                                 + nat (max (z + 1 - month_start (n + 1)) 0)))"
    by simp
  show "((z, n - 1), (z, n))
          \<in> measure (\<lambda>(z, n). nat (max (month_start n - z) 0)
                                + nat (max (z + 1 - month_start (n + 1)) 0))"
    if "z < month_start n" for z n
    using that step [of "n - 1"] step [of n] by simp
  show "((z, n + 1), (z, n))
          \<in> measure (\<lambda>(z, n). nat (max (month_start n - z) 0)
                                + nat (max (z + 1 - month_start (n + 1)) 0))"
    if "\<not> z < month_start n" and "month_start (n + 1) \<le> z" for z n
    using that step [of "n + 1"] by simp
qed

definition month_of_day :: "int \<Rightarrow> int" where
  "month_of_day z = month_seek z (((z + 719468) * 4800) div 146097)"

definition first_of_month :: "int \<Rightarrow> int" where
  "first_of_month z = month_start (month_of_day z)"

definition day_of_month :: "int \<Rightarrow> int" where
  "day_of_month z = z - first_of_month z + 1"

definition DateFromTime :: "int \<Rightarrow> int" where
  "DateFromTime t = day_of_month (Day t)"

definition getDay :: "int \<Rightarrow> int \<Rightarrow> int" where
  "getDay tz t = WeekDay (t + tz)"

definition getDate :: "int \<Rightarrow> int \<Rightarrow> int" where
  "getDate tz t = DateFromTime (t + tz)"

definition setDate :: "int \<Rightarrow> int \<Rightarrow> int \<Rightarrow> int" where
  "setDate tz t dt =
     (Day (t + tz) - (DateFromTime (t + tz) - 1) + dt - 1) * msPerDay
       + TimeWithinDay (t + tz) - tz"

definition setHours :: "int \<Rightarrow> int \<Rightarrow> int option \<Rightarrow> int option \<Rightarrow> int \<Rightarrow> int \<Rightarrow> int option" where
  "setHours tz t hour minute sec ms =
     (case (hour, minute) of
        (Some h, Some m) \<Rightarrow>
          Some (Day (t + tz) * msPerDay + (h * 3600000 + m * 60000 + sec * 1000 + ms) - tz)
      | _ \<Rightarrow> None)"

subsection \<open>parseInt\<close>

definition digit_of :: "char \<Rightarrow> nat option" where
  "digit_of c =
     (let n = (of_char c :: nat)
      in if 48 \<le> n \<and> n \<le> 57 then Some (n - 48)
         else if 97 \<le> n \<and> n \<le> 122 then Some (n - 87)
         else if 65 \<le> n \<and> n \<le> 90 then Some (n - 55)
         else None)"

definition in_radix :: "nat \<Rightarrow> char \<Rightarrow> bool" where
  "in_radix r c = (case digit_of c of None \<Rightarrow> False | Some v \<Rightarrow> v < r)"

definition digit_value :: "char \<Rightarrow> nat" where
  "digit_value c = (case digit_of c of None \<Rightarrow> 0 | Some v \<Rightarrow> v)"

definition number_in :: "nat \<Rightarrow> string \<Rightarrow> int option" where
  "number_in r s =
     (case takeWhile (in_radix r) s of
        [] \<Rightarrow> None
      | d # ds \<Rightarrow> Some (int (foldl (\<lambda>a c. a * r + digit_value c) 0 (d # ds))))"

definition unsigned_in :: "string \<Rightarrow> int option" where
  "unsigned_in s =
     (if take 2 s = ''0x'' \<or> take 2 s = ''0X'' then number_in 16 (drop 2 s)
      else number_in 10 s)"

text \<open>
  \<open>parseInt(x)\<close> of a string or of \<open>undefined\<close>: white space, a sign, an optional
  \<open>0x\<close>, then the longest run of digits; \<open>NaN\<close> when there is none.
\<close>

definition parseInt :: "string option \<Rightarrow> int option" where
  "parseInt x =
     (case x of
        None \<Rightarrow> None
      | Some s \<Rightarrow>
          (case dropWhile is_space s of
             [] \<Rightarrow> None
           | c # cs \<Rightarrow>
               if c = CHR ''-'' then map_option uminus (unsigned_in cs)
               else if c = CHR ''+'' then unsigned_in cs
               else unsigned_in (c # cs)))"

section \<open>Bulk schedule expansion\<close>

text \<open>
  \<open>submitSchedule\<close> in the client. \<open>now\<close> is the \<open>new Date()\<close> taken before the loops;
  each pass of the inner loop takes its own \<open>new Date()\<close>, here \<open>date0\<close>.
\<close>

text \<open>\<open>let diff = dayIndex - now.getDay(); if (diff < 0) diff += 7;\<close>\<close>

definition day_shift :: "int \<Rightarrow> int \<Rightarrow> int \<Rightarrow> int" where
  "day_shift tz now dayIndex =
     (if dayIndex - getDay tz now < 0 then dayIndex - getDay tz now + 7
      else dayIndex - getDay tz now)"

text \<open>The date after \<open>setDate\<close> and \<open>setHours\<close>, before the comparison with \<open>now\<close>.\<close>

definition candidate :: "int \<Rightarrow> int \<Rightarrow> int \<Rightarrow> int \<Rightarrow> string \<Rightarrow> int option" where
  "candidate tz now date0 dayIndex timeStr =
     (let parts = split_on CHR '':'' timeStr;
          hours = nth_opt parts 0;
          minutes = nth_opt parts 1;
          date1 = setDate tz date0 (getDate tz now + day_shift tz now dayIndex)
      in setHours tz date1 (parseInt hours) (parseInt minutes) 0 0)"

definition occurrence :: "int \<Rightarrow> int \<Rightarrow> int \<Rightarrow> int \<Rightarrow> string \<Rightarrow> int option" where
  "occurrence tz now date0 dayIndex timeStr =
     (case candidate tz now date0 dayIndex timeStr of
        None \<Rightarrow> None
      | Some date \<Rightarrow>
          if date \<le> now then Some (setDate tz date (getDate tz date + 7)) else Some date)"

record form =
  f_title :: "string option"
  f_description :: "string option"
  f_times :: "string list"
  f_days :: "int list"
  f_thumbnail :: "string option"
  f_firstComment :: "string option"

definition schedule_entry :: "string \<Rightarrow> form \<Rightarrow> int option \<Rightarrow> body" where
  "schedule_entry fileId fd date =
     \<lparr>b_driveFileId = Some fileId, b_title = f_title fd, b_description = f_description fd,
      b_thumbnail = f_thumbnail fd, b_firstComment = f_firstComment fd,
      b_tags = None, b_hashtags = None, b_scheduledTime = date,
      b_status = None, b_youtubeId = None, b_error = None\<rparr>"

text \<open>
  The clock answers the \<open>new Date()\<close> of pass \<open>(i, j)\<close>. The result is the array posted to
  \<open>/api/schedule/bulk\<close>, or the text of the toast that rejects the form.
\<close>

definition submitSchedule ::
  "int \<Rightarrow> int \<Rightarrow> (nat \<Rightarrow> nat \<Rightarrow> int) \<Rightarrow> string \<Rightarrow> form \<Rightarrow> message + body list" where
  "submitSchedule tz now clock fileId fd =
     (if length (f_days fd) = 0 then Inl ''Select at least one day''
      else if length (f_times fd) = 0 then Inl ''Add at least one time''
      else Inr (concat (map (\<lambda>(i, dayIndex).
                  map (\<lambda>(j, timeStr).
                         schedule_entry fileId fd (occurrence tz now (clock i j) dayIndex timeStr))
                      (enumerate 0 (f_times fd)))
                  (enumerate 0 (f_days fd)))))"

text \<open>The time text of \<open>h\<close> hours and \<open>m\<close> minutes, two digits each.\<close>

definition hhmm :: "nat \<Rightarrow> nat \<Rightarrow> string" where
  "hhmm h m =
     [char_of (48 + h div 10), char_of (48 + h mod 10), CHR '':'',
      char_of (48 + m div 10), char_of (48 + m mod 10)]"

text \<open>A text of the form \<open>HH:MM\<close>, as a time input yields it.\<close>

definition is_hhmm :: "string \<Rightarrow> bool" where
  "is_hhmm s \<longleftrightarrow>
     (case s of
        [a, b, c, d, e] \<Rightarrow>
          c = CHR '':'' \<and> in_radix 10 a \<and> in_radix 10 b \<and> in_radix 10 d \<and> in_radix 10 e
          \<and> 10 * digit_value a + digit_value b < 24
          \<and> 10 * digit_value d + digit_value e < 60
      | _ \<Rightarrow> False)"

text \<open>
  The candidate as the specification words it: the local date of \<open>now\<close> plus
  \<open>(targetDay - currentDay + 7) mod 7\<close> days, at \<open>h:m:00.000\<close> local time.
\<close>

definition spec_candidate :: "int \<Rightarrow> int \<Rightarrow> int \<Rightarrow> nat \<Rightarrow> nat \<Rightarrow> int" where
  "spec_candidate tz now targetDay h m =
     (Day (now + tz) + (targetDay - getDay tz now + 7) mod 7) * msPerDay
       + (int h * 3600000 + int m * 60000) - tz"

section \<open>Sample data\<close>

definition job :: "int \<Rightarrow> int \<Rightarrow> string \<Rightarrow> video" where
  "job i t st =
     \<lparr>id_col = i, driveFileId = ''drive-file'', title = Some ''clip'', description = None,
      tags = None, hashtags = None, thumbnail = Some ''data:image/jpeg;base64,AAAA'',
      firstComment = Some ''first'', scheduledTime = t, status = st,
      youtubeId = None, error = None\<rparr>"

definition queue3 :: db where
  "queue3 = \<lparr>videos = [job 1 10 Pending, job 2 20 Done, job 3 30 Failed], next_id = 4\<rparr>"

definition backlog :: "video list" where
  "backlog = [job 1 30 Pending, job 2 10 Pending, job 3 50 Pending, job 4 5 Done]"

definition in_flight :: "video list" where
  "in_flight = [job 1 30 Pending, job 2 10 Uploading, job 3 50 Pending, job 4 5 Done]"

definition crashed :: db where
  "crashed = \<lparr>videos = [job 1 10 Uploading, job 2 5 Done, job 3 20 Pending], next_id = 4\<rparr>"

definition online :: connection where
  "online = \<lparr>authenticate = Inr (), sync = Inr ()\<rparr>"

text \<open>A connection on which the schema synchronisation fails.\<close>

definition unsynced :: connection where
  "unsynced = \<lparr>authenticate = Inr (), sync = Inl ''relation already exists''\<rparr>"

definition halted :: server where
  "halted = \<lparr>store = crashed, running = [], starting = False\<rparr>"

text \<open>
  A world in which Drive and the video insert answer, and the thumbnail, the comment,
  the webhook and the generative model do not.
\<close>

definition studio :: world where
  "studio =
     \<lparr>google_tokens = Inr (Some ''{token}''),
      JSON_parse = (\<lambda>s. if s = ''{token}''
                          then Some (JObj [(''access_token'', JStr ''t'')])
                          else if s = ''[]'' then Some (JArr []) else None),
      drive_files_get = (\<lambda>f. Inr ''bytes''),
      videos_insert = (\<lambda>t d tg m. Inr ''yt-1''),
      thumbnails_set = (\<lambda>v b. Inl ''forbidden''),
      commentThreads_insert = (\<lambda>v c. Inl ''comments disabled''),
      comments_setManagementStatus = (\<lambda>c. Inl ''forbidden''),
      JSON_stringify = (\<lambda>v. if v = JArr [] then ''[]'' else ''null''),
      gemini_generateContent = (\<lambda>f. Inl ''quota exceeded''),
      DISCORD_WEBHOOK_URL = Some ''https://discord.example/hook'',
      axios_post = (\<lambda>u st t d. Inl ''axios is not defined'')\<rparr>"

text \<open>The same world with Drive unreachable.\<close>

definition studio_no_drive :: world where
  "studio_no_drive = studio\<lparr>drive_files_get := (\<lambda>f. Inl ''File not found'')\<rparr>"

text \<open>A bulk entry that names its own status.\<close>

definition forged :: body where
  "forged =
     \<lparr>b_driveFileId = Some ''drive-file'', b_title = None, b_description = None,
      b_thumbnail = None, b_firstComment = None, b_tags = None, b_hashtags = None,
      b_scheduledTime = Some 0, b_status = Some Uploading, b_youtubeId = None,
      b_error = None\<rparr>"

definition fresh :: server where
  "fresh = \<lparr>store = \<lparr>videos = [], next_id = 1\<rparr>, running = [], starting = False\<rparr>"

text \<open>
  An instant in UTC: Tuesday 2 January 2024 (day 19724 of the epoch) at 10:00. A form
  with two days and two times, and a clock that reads one millisecond after \<open>now\<close> in
  every pass.
\<close>

definition tuesday_10 :: int where
  "tuesday_10 = 19724 * 86400000 + 10 * 3600000"

text \<open>
  The last millisecond of Wednesday 31 January 2024 (day 19753) in UTC, half a second
  into Thursday 1 February 2024, and a clock that reads one second before \<open>now\<close>.
\<close>

definition january_end :: int where
  "january_end = 19753 * 86400000 + 86399999"

definition february_start :: int where
  "february_start = 19754 * 86400000 + 500"

definition just_before :: "int \<Rightarrow> nat \<Rightarrow> nat \<Rightarrow> int" where
  "just_before now i j = now - 1000"

definition week_form :: form where
  "week_form =
     \<lparr>f_title = Some ''clip'', f_description = Some ''about the clip'',
      f_times = [''09:00'', ''18:30''], f_days = [1, 3],
      f_thumbnail = None, f_firstComment = Some ''first''\<rparr>"

definition soon_after :: "int \<Rightarrow> nat \<Rightarrow> nat \<Rightarrow> int" where
  "soon_after now i j = now + 1"

section \<open>Properties of the table operations\<close>

lemma earliest_None_iff: "earliest xs = None \<longleftrightarrow> xs = []"
  by (induction xs) (auto split: option.splits)

lemma earliest_Some:
  "earliest xs = Some j \<Longrightarrow> j \<in> set xs \<and> (\<forall>r\<in>set xs. scheduledTime j \<le> scheduledTime r)"
proof (induction xs arbitrary: j)
  case Nil
  then show ?case by simp
next
  case (Cons x xs)
  show ?case
  proof (cases "earliest xs")
    case None
    then have "xs = []" by (simp add: earliest_None_iff)
    with Cons.prems show ?thesis by simp
  next
    case (Some k)
    from Cons.IH [OF Some] have k: "k \<in> set xs" "\<forall>r\<in>set xs. scheduledTime k \<le> scheduledTime r"
      by simp_all
    show ?thesis
    proof (cases "scheduledTime x \<le> scheduledTime k")
      case True
      with Some Cons.prems have "j = x" by simp
      with True k show ?thesis by force
    next
      case False
      with Some Cons.prems have "j = k" by simp
      with False k show ?thesis by force
    qed
  qed
qed

lemma findOne_due_None_iff: "findOne_due now rows = None \<longleftrightarrow> (\<forall>r\<in>set rows. \<not> is_due now r)"
  by (simp add: findOne_due_def earliest_None_iff filter_empty_conv)

lemma findOne_due_Some:
  assumes "findOne_due now rows = Some j"
  shows "j \<in> set rows" and "is_due now j"
    and "\<forall>r\<in>set rows. is_due now r \<longrightarrow> scheduledTime j \<le> scheduledTime r"
  using earliest_Some [OF assms [unfolded findOne_due_def]] by auto

lemma findOne_status_None_iff:
  "findOne_status st rows = None \<longleftrightarrow> (\<forall>r\<in>set rows. status r \<noteq> st)"
  by (auto simp: findOne_status_def find_None_iff)

lemma sendDiscordNotification_returns: "fst (sendDiscordNotification w st t d) = Inr ()"
  by (simp add: sendDiscordNotification_def split: option.splits sum.splits)

lemma tick_begin_idle:
  "tick_begin now rows = (rows', None) \<Longrightarrow> rows' = rows"
  by (auto simp: tick_begin_def split: option.splits)

lemma tick_end_store:
  "\<exists>inst. status inst \<noteq> Uploading \<and> id_col inst = id_col j
         \<and> fst (tick_end w j rows) = save inst rows"
proof (cases "run_upload w j")
  case (Pair res fx)
  show ?thesis
  proof (cases res)
    case (Inl e)
    obtain fx' where n: "sendDiscordNotification w ''Failed'' (title j) e = (Inr (), fx')"
      using sendDiscordNotification_returns [of w "''Failed''" "title j" e]
      by (cases "sendDiscordNotification w ''Failed'' (title j) e") auto
    have "fst (tick_end w j rows) = save (j\<lparr>status := Failed, error := Some e\<rparr>) rows"
      using Pair Inl n by (simp add: tick_end_def attempt_def)
    then show ?thesis by (intro exI [of _ "j\<lparr>status := Failed, error := Some e\<rparr>"]) simp
  next
    case (Inr y)
    obtain fx' where n: "sendDiscordNotification w ''Success'' (title j)
        (''Live at: https://youtu.be/'' @ y) = (Inr (), fx')"
      using sendDiscordNotification_returns [of w "''Success''" "title j" "''Live at: https://youtu.be/'' @ y"]
      by (cases "sendDiscordNotification w ''Success'' (title j) (''Live at: https://youtu.be/'' @ y)") auto
    have "fst (tick_end w j rows)
            = save (j\<lparr>status := Done, youtubeId := Some y, error := None\<rparr>) rows"
      using Pair Inr n by (simp add: tick_end_def attempt_def)
    then show ?thesis
      by (intro exI [of _ "j\<lparr>status := Done, youtubeId := Some y, error := None\<rparr>"]) simp
  qed
qed

lemma destroy_pending_hit:
  assumes "distinct (map id_col rows)" "r \<in> set rows" "status r = Pending"
  shows "destroy_pending (id_col r) rows = remove1 r rows"
  using assms
proof (induction rows)
  case Nil
  then show ?case by simp
next
  case (Cons x xs)
  show ?case
  proof (cases "x = r")
    case True
    have "id_col r \<notin> id_col ` set xs" using Cons.prems(1) True by simp
    then have "\<forall>y\<in>set xs. id_col y \<noteq> id_col r" by (metis imageI)
    then have "filter (\<lambda>y. \<not> (id_col y = id_col r \<and> status y = Pending)) xs = xs"
      by (simp add: filter_id_conv)
    with True Cons.prems(3) show ?thesis by (simp add: destroy_pending_def)
  next
    case False
    then have in_xs: "r \<in> set xs" using Cons.prems(2) by simp
    then have "id_col x \<noteq> id_col r" using Cons.prems(1) by force
    moreover have "destroy_pending (id_col r) xs = remove1 r xs"
      using Cons.IH Cons.prems(1,3) in_xs by simp
    ultimately show ?thesis using False by (simp add: destroy_pending_def)
  qed
qed

lemma destroy_pending_miss:
  assumes "\<forall>x\<in>set rows. id_col x = i \<longrightarrow> status x \<noteq> Pending"
  shows "destroy_pending i rows = rows"
  using assms by (auto simp: destroy_pending_def filter_id_conv)

text \<open>
  C8. Deleting a job removes its row exactly when the row is \<open>'Pending'\<close>: the table
  loses that row and no other. For a row of any other status (\<open>'Uploading'\<close>, \<open>'Done'\<close>,
  \<open>'Failed'\<close> or any other text) the request changes nothing and the number of rows
  stays; so does a request for an id that no \<open>'Pending'\<close> row has.
\<close>

theorem delete_only_pending:
  assumes "distinct (map id_col (videos d))" and "r \<in> set (videos d)"
  shows "(status r = Pending \<longrightarrow>
            videos (delete_schedule (id_col r) d) = remove1 r (videos d)
          \<and> r \<notin> set (videos (delete_schedule (id_col r) d))
          \<and> Suc (length (videos (delete_schedule (id_col r) d))) = length (videos d))
       \<and> (status r \<noteq> Pending \<longrightarrow> delete_schedule (id_col r) d = d)
       \<and> (status r = Done \<or> status r = Failed \<longrightarrow>
            delete_schedule (id_col r) d = d
          \<and> length (videos (delete_schedule (id_col r) d)) = length (videos d))
       \<and> (\<forall>i. (\<forall>x\<in>set (videos d). id_col x = i \<longrightarrow> status x \<noteq> Pending) \<longrightarrow>
              delete_schedule i d = d)"
proof (intro conjI impI allI)
  assume p: "status r = Pending"
  show eq: "videos (delete_schedule (id_col r) d) = remove1 r (videos d)"
    using destroy_pending_hit [OF assms p] by (simp add: delete_schedule_def)
  have dr: "distinct (videos d)" using assms(1) by (simp add: distinct_map)
  show "r \<notin> set (videos (delete_schedule (id_col r) d))"
    using eq dr by simp
  show "Suc (length (videos (delete_schedule (id_col r) d))) = length (videos d)"
    using eq assms(2) by (simp add: length_remove1) (metis Suc_pred length_pos_if_in_set)
next
  assume t: "status r \<noteq> Pending"
  have "\<forall>x\<in>set (videos d). id_col x = id_col r \<longrightarrow> status x \<noteq> Pending"
  proof (intro ballI impI)
    fix x assume "x \<in> set (videos d)" "id_col x = id_col r"
    then have "x = r" using assms by (meson distinct_map inj_onD)
    then show "status x \<noteq> Pending" using t by simp
  qed
  then have "destroy_pending (id_col r) (videos d) = videos d" by (rule destroy_pending_miss)
  then show "delete_schedule (id_col r) d = d" by (simp add: delete_schedule_def)
next
  assume t: "status r = Done \<or> status r = Failed"
  have "\<forall>x\<in>set (videos d). id_col x = id_col r \<longrightarrow> status x \<noteq> Pending"
  proof (intro ballI impI)
    fix x assume "x \<in> set (videos d)" "id_col x = id_col r"
    then have "x = r" using assms by (meson distinct_map inj_onD)
    then show "status x \<noteq> Pending" using t by auto
  qed
  then have "destroy_pending (id_col r) (videos d) = videos d" by (rule destroy_pending_miss)
  then show "delete_schedule (id_col r) d = d" by (simp add: delete_schedule_def)
  then show "length (videos (delete_schedule (id_col r) d)) = length (videos d)" by simp
next
  fix i assume "\<forall>x\<in>set (videos d). id_col x = i \<longrightarrow> status x \<noteq> Pending"
  then have "destroy_pending i (videos d) = videos d" by (rule destroy_pending_miss)
  then show "delete_schedule i d = d" by (simp add: delete_schedule_def)
qed

theorem delete_only_pending_witness:
  "distinct (map id_col (videos queue3))
   \<and> set [job 1 10 Pending, job 2 20 Done, job 3 30 Failed] \<subseteq> set (videos queue3)
   \<and> videos (delete_schedule 1 queue3) = [job 2 20 Done, job 3 30 Failed]
   \<and> delete_schedule 2 queue3 = queue3
   \<and> delete_schedule 3 queue3 = queue3
   \<and> delete_schedule 7 queue3 = queue3
   \<and> distinct (map id_col (videos crashed))
   \<and> job 1 10 Uploading \<in> set (videos crashed)
   \<and> delete_schedule 1 crashed = crashed"
proof -
  have d: "distinct (map id_col (videos queue3))"
    by (simp add: queue3_def job_def)
  have m1: "job 1 10 Pending \<in> set (videos queue3)"
    and m2: "job 2 20 Done \<in> set (videos queue3)"
    and m3: "job 3 30 Failed \<in> set (videos queue3)"
    by (simp_all add: queue3_def)
  have c: "distinct (map id_col (videos crashed))"
    by (simp add: crashed_def job_def)
  have u: "job 1 10 Uploading \<in> set (videos crashed)"
    by (simp add: crashed_def)
  show ?thesis
    using d m1 m2 m3 c u delete_only_pending [OF d m1] delete_only_pending [OF d m2]
      delete_only_pending [OF d m3] delete_only_pending [OF c u]
    by (simp add: queue3_def crashed_def job_def delete_schedule_def destroy_pending_def)
qed

lemma save_distinct:
  assumes "distinct (map id_col rows)" and "j \<in> set rows" and "id_col inst = id_col j"
  shows "save inst rows
           = map (\<lambda>r. if r = j
                       then j\<lparr>status := status inst, youtubeId := youtubeId inst, error := error inst\<rparr>
                       else r) rows"
proof -
  have inj: "inj_on id_col (set rows)"
    using assms(1) by (simp add: distinct_map)
  have "\<forall>r\<in>set rows. (id_col r = id_col j) = (r = j)"
  proof
    fix r assume "r \<in> set rows"
    then show "(id_col r = id_col j) = (r = j)"
      using inj assms(2) by (auto dest: inj_onD)
  qed
  then show ?thesis using assms(3) by (simp add: save_def cong: map_cong)
qed

lemma tick_idle_busy:
  assumes "\<exists>r\<in>set rows. status r = Uploading"
  shows "tick w now rows = (rows, [])"
proof -
  have "findOne_status Uploading rows \<noteq> None"
    using assms by (simp add: findOne_status_None_iff)
  then show ?thesis by (auto simp: tick_def tick_begin_def)
qed


lemma attempt_starts_with_invoke: "\<exists>evs. snd (attempt w j) = Invoke j # evs"
  by (cases "run_upload w j") (auto simp: attempt_def split: sum.splits prod.splits)

lemma tick_end_starts_with_invoke: "\<exists>evs. snd (tick_end w j rows) = Invoke j # evs"
proof -
  obtain evs where "snd (attempt w j) = Invoke j # evs"
    using attempt_starts_with_invoke by blast
  then show ?thesis
    by (cases "attempt w j") (auto simp: tick_end_def split: sum.splits prod.splits)
qed

lemma tick_picks:
  assumes "\<forall>r\<in>set rows. status r \<noteq> Uploading" and "findOne_due now rows = Some j"
  shows "tick_begin now rows = (save (j\<lparr>status := Uploading\<rparr>) rows, Some (j\<lparr>status := Uploading\<rparr>))"
    and "\<exists>evs. snd (tick w now rows)
           = Persist (j\<lparr>status := Uploading\<rparr>) # Invoke (j\<lparr>status := Uploading\<rparr>) # evs"
proof -
  have n: "findOne_status Uploading rows = None"
    using assms(1) by (simp add: findOne_status_None_iff)
  show b: "tick_begin now rows
      = (save (j\<lparr>status := Uploading\<rparr>) rows, Some (j\<lparr>status := Uploading\<rparr>))"
    using n assms(2) by (simp add: tick_begin_def)
  obtain evs where "snd (tick_end w (j\<lparr>status := Uploading\<rparr>) (save (j\<lparr>status := Uploading\<rparr>) rows))
      = Invoke (j\<lparr>status := Uploading\<rparr>) # evs"
    using tick_end_starts_with_invoke by blast
  then show "\<exists>evs. snd (tick w now rows)
           = Persist (j\<lparr>status := Uploading\<rparr>) # Invoke (j\<lparr>status := Uploading\<rparr>) # evs"
    using b
    by (cases "tick_end w (j\<lparr>status := Uploading\<rparr>) (save (j\<lparr>status := Uploading\<rparr>) rows)")
      (simp add: tick_def)
qed


lemma run_upload_studio:
  "run_upload studio (job i t st) = (Inr ''yt-1'', [VideoInserted ''yt-1''])"
  by (simp add: run_upload_def processUpload_def studio_def job_def getStoredTokens_def
      falsy_def parse_tags_def truthy_def or_else_def slice_50_def set_thumbnail_def
      post_comment_def nth_opt_def)

lemma run_upload_studio_no_drive:
  "run_upload studio_no_drive (job i t st) = (Inl ''File not found'', [])"
  by (simp add: run_upload_def processUpload_def studio_no_drive_def studio_def job_def
      getStoredTokens_def falsy_def parse_tags_def truthy_def or_else_def)


lemma save_other:
  "r \<in> set rows \<Longrightarrow> id_col r \<noteq> id_col inst \<Longrightarrow> r \<in> set (save inst rows)"
  by (force simp: save_def)

lemma tick_end_success:
  assumes "run_upload w j = (Inr ytId, fx)"
  shows "fst (tick_end w j rows) = save (j\<lparr>status := Done, youtubeId := Some ytId, error := None\<rparr>) rows"
    and "\<exists>evs. snd (tick_end w j rows)
           = evs @ [Persist (j\<lparr>status := Done, youtubeId := Some ytId, error := None\<rparr>)]"
proof -
  obtain fx' where n: "sendDiscordNotification w ''Success'' (title j)
      (''Live at: https://youtu.be/'' @ ytId) = (Inr (), fx')"
    using sendDiscordNotification_returns [of w "''Success''" "title j" "''Live at: https://youtu.be/'' @ ytId"]
    by (cases "sendDiscordNotification w ''Success'' (title j) (''Live at: https://youtu.be/'' @ ytId)") auto
  have t: "tick_end w j rows
      = (save (j\<lparr>status := Done, youtubeId := Some ytId, error := None\<rparr>) rows,
         (Invoke j # map Remote fx @ Notify ''Success'' # map Remote fx')
           @ [Persist (j\<lparr>status := Done, youtubeId := Some ytId, error := None\<rparr>)])"
    using assms n by (simp add: tick_end_def attempt_def)
  show "fst (tick_end w j rows)
      = save (j\<lparr>status := Done, youtubeId := Some ytId, error := None\<rparr>) rows"
    by (simp add: t)
  show "\<exists>evs. snd (tick_end w j rows)
           = evs @ [Persist (j\<lparr>status := Done, youtubeId := Some ytId, error := None\<rparr>)]"
    unfolding t snd_conv by (rule exI) (rule refl)
qed

lemma tick_end_failure:
  assumes "run_upload w j = (Inl e, fx)"
  shows "fst (tick_end w j rows) = save (j\<lparr>status := Failed, error := Some e\<rparr>) rows"
    and "\<exists>evs. snd (tick_end w j rows) = evs @ [Persist (j\<lparr>status := Failed, error := Some e\<rparr>)]"
proof -
  obtain fx' where n: "sendDiscordNotification w ''Failed'' (title j) e = (Inr (), fx')"
    using sendDiscordNotification_returns [of w "''Failed''" "title j" e]
    by (cases "sendDiscordNotification w ''Failed'' (title j) e") auto
  have t: "tick_end w j rows
      = (save (j\<lparr>status := Failed, error := Some e\<rparr>) rows,
         (Invoke j # map Remote fx @ Notify ''Failed'' # map Remote fx')
           @ [Persist (j\<lparr>status := Failed, error := Some e\<rparr>)])"
    using assms n by (simp add: tick_end_def attempt_def)
  show "fst (tick_end w j rows) = save (j\<lparr>status := Failed, error := Some e\<rparr>) rows"
    by (simp add: t)
  show "\<exists>evs. snd (tick_end w j rows) = evs @ [Persist (j\<lparr>status := Failed, error := Some e\<rparr>)]"
    unfolding t snd_conv by (rule exI) (rule refl)
qed

lemma tick_begin_selects_pending:
  assumes "tick_begin now rows = (rows', Some k)"
  shows "\<exists>j\<in>set rows. status j = Pending \<and> k = j\<lparr>status := Uploading\<rparr>
           \<and> rows' = save k rows"
proof -
  from assms obtain j where j: "findOne_due now rows = Some j"
    and k: "k = j\<lparr>status := Uploading\<rparr>" and r: "rows' = save k rows"
    by (auto simp: tick_begin_def split: option.splits)
  have "j \<in> set rows" "status j = Pending"
    using findOne_due_Some [OF j] by (simp_all add: is_due_def)
  then show ?thesis using k r by blast
qed

lemma failed_survives_tick:
  assumes "distinct (map id_col rows)" and "r \<in> set rows" and "status r = Failed"
  shows "r \<in> set (fst (tick w now rows))"
proof (cases "tick_begin now rows")
  case (Pair rows' sel)
  show ?thesis
  proof (cases sel)
    case None
    then have "rows' = rows" using Pair tick_begin_idle by blast
    then show ?thesis using Pair None assms(2) by (simp add: tick_def)
  next
    case (Some k)
    obtain j where j: "j \<in> set rows" "status j = Pending" "k = j\<lparr>status := Uploading\<rparr>"
      "rows' = save k rows"
      using tick_begin_selects_pending [OF Pair [unfolded Some]] by blast
    have "r \<noteq> j" using assms(3) j(2) by auto
    then have ne: "id_col r \<noteq> id_col k"
      using assms(1,2) j(1,3) by (auto simp: distinct_map dest: inj_onD)
    then have r1: "r \<in> set rows'" using assms(2) j(4) by (simp add: save_other)
    obtain inst where inst: "id_col inst = id_col k" "fst (tick_end w k rows') = save inst rows'"
      using tick_end_store [of k w rows'] by blast
    have "r \<in> set (fst (tick_end w k rows'))"
      using r1 ne inst by (simp add: save_other)
    then show ?thesis using Pair Some
      by (cases "tick_end w k rows'") (simp add: tick_def)
  qed
qed

lemma failed_survives_reset: "r \<in> set rows \<Longrightarrow> status r = Failed \<Longrightarrow> r \<in> set (reset_stuck rows)"
  by (force simp: reset_stuck_def)

lemma failed_survives_initDB:
  "r \<in> set (videos d) \<Longrightarrow> status r = Failed \<Longrightarrow> r \<in> set (videos (initDB c d))"
  by (simp add: initDB_def failed_survives_reset split: sum.splits)

text \<open>
  C3. For the job a tick executes: when the upload pipeline returns an id the row ends
  as \<open>'Done'\<close> with that id stored and \<open>error\<close> cleared; when it throws the row ends as
  \<open>'Failed'\<close> with the message stored. In both cases the last thing the tick does is the
  write of that final state, whatever the webhook answers. A \<open>'Failed'\<close> row is never
  selected by a tick, and ticks and start-up leave it as it is.
\<close>

theorem upload_outcome_recorded:
  assumes "distinct (map id_col rows)" and "j \<in> set rows"
  shows "(\<forall>ytId fx. run_upload w j = (Inr ytId, fx) \<longrightarrow>
            fst (tick_end w j rows)
              = map (\<lambda>r. if r = j then j\<lparr>status := Done, youtubeId := Some ytId, error := None\<rparr>
                          else r) rows
          \<and> (\<exists>evs. snd (tick_end w j rows)
                = evs @ [Persist (j\<lparr>status := Done, youtubeId := Some ytId, error := None\<rparr>)]))
       \<and> (\<forall>e fx. run_upload w j = (Inl e, fx) \<longrightarrow>
            fst (tick_end w j rows)
              = map (\<lambda>r. if r = j then j\<lparr>status := Failed, error := Some e\<rparr> else r) rows
          \<and> (\<exists>evs. snd (tick_end w j rows)
                = evs @ [Persist (j\<lparr>status := Failed, error := Some e\<rparr>)]))
       \<and> (\<forall>r\<in>set rows. status r = Failed \<longrightarrow>
            (\<forall>w' now. r \<in> set (fst (tick w' now rows))
               \<and> snd (tick_begin now rows) \<noteq> Some (r\<lparr>status := Uploading\<rparr>))
          \<and> (\<forall>c n. r \<in> set (videos (initDB c \<lparr>videos = rows, next_id = n\<rparr>))))"
proof (intro conjI allI impI ballI)
  fix ytId fx assume u: "run_upload w j = (Inr ytId, fx)"
  show "fst (tick_end w j rows)
      = map (\<lambda>r. if r = j then j\<lparr>status := Done, youtubeId := Some ytId, error := None\<rparr>
                  else r) rows"
    using tick_end_success(1) [OF u]
      save_distinct [OF assms, of "j\<lparr>status := Done, youtubeId := Some ytId, error := None\<rparr>"]
    by simp
  show "\<exists>evs. snd (tick_end w j rows)
      = evs @ [Persist (j\<lparr>status := Done, youtubeId := Some ytId, error := None\<rparr>)]"
    using tick_end_success(2) [OF u] .
next
  fix e fx assume u: "run_upload w j = (Inl e, fx)"
  show "fst (tick_end w j rows)
      = map (\<lambda>r. if r = j then j\<lparr>status := Failed, error := Some e\<rparr> else r) rows"
    using tick_end_failure(1) [OF u]
      save_distinct [OF assms, of "j\<lparr>status := Failed, error := Some e\<rparr>"]
    by simp
  show "\<exists>evs. snd (tick_end w j rows) = evs @ [Persist (j\<lparr>status := Failed, error := Some e\<rparr>)]"
    using tick_end_failure(2) [OF u] .
next
  fix r w' now assume r: "r \<in> set rows" "status r = Failed"
  show "r \<in> set (fst (tick w' now rows))"
    using assms(1) r by (rule failed_survives_tick)
  show "snd (tick_begin now rows) \<noteq> Some (r\<lparr>status := Uploading\<rparr>)"
  proof
    assume s: "snd (tick_begin now rows) = Some (r\<lparr>status := Uploading\<rparr>)"
    then have "tick_begin now rows = (fst (tick_begin now rows), Some (r\<lparr>status := Uploading\<rparr>))"
      by (metis prod.collapse)
    then obtain k where k: "k \<in> set rows" "status k = Pending"
      "r\<lparr>status := Uploading\<rparr> = k\<lparr>status := Uploading\<rparr>"
      using tick_begin_selects_pending by blast
    have "id_col (r\<lparr>status := Uploading\<rparr>) = id_col (k\<lparr>status := Uploading\<rparr>)"
      by (simp only: k(3))
    then have "id_col r = id_col k" by simp
    then have "r = k" using assms(1) r(1) k(1) by (auto simp: distinct_map dest: inj_onD)
    then show False using r(2) k(2) by simp
  qed
next
  fix r c n assume r: "r \<in> set rows" "status r = Failed"
  then show "r \<in> set (videos (initDB c \<lparr>videos = rows, next_id = n\<rparr>))"
    by (simp add: failed_survives_initDB)
qed

theorem upload_outcome_recorded_witness:
  "distinct (map id_col in_flight) \<and> job 2 10 Uploading \<in> set in_flight
   \<and> fst (tick_end studio (job 2 10 Uploading) in_flight)
       = [job 1 30 Pending, (job 2 10 Done)\<lparr>youtubeId := Some ''yt-1''\<rparr>,
          job 3 50 Pending, job 4 5 Done]
   \<and> fst (tick_end studio_no_drive (job 2 10 Uploading) in_flight)
       = [job 1 30 Pending, (job 2 10 Failed)\<lparr>error := Some ''File not found''\<rparr>,
          job 3 50 Pending, job 4 5 Done]"
proof -
  have d: "distinct (map id_col in_flight)" by (simp add: in_flight_def job_def)
  have m: "job 2 10 Uploading \<in> set in_flight" by (simp add: in_flight_def)
  show ?thesis
    using d m upload_outcome_recorded [OF d m, of studio]
      upload_outcome_recorded [OF d m, of studio_no_drive]
      run_upload_studio [of 2 10 Uploading] run_upload_studio_no_drive [of 2 10 Uploading]
    by (simp add: in_flight_def job_def)
qed

lemma initDB_online:
  assumes "authenticate c = Inr ()" and "sync c = Inr ()"
  shows "videos (initDB c d) = reset_stuck (videos d)"
  using assms by (simp add: initDB_def)

lemma reset_stuck_no_uploading: "\<forall>r\<in>set (reset_stuck rows). status r \<noteq> Uploading"
  by (auto simp: reset_stuck_def)

lemma tick_begin_after_reset:
  assumes "\<forall>x\<in>set rows. status x \<noteq> Uploading" and "r \<in> set rows" and "is_due now r"
  shows "\<exists>k\<in>set rows. scheduledTime k \<le> scheduledTime r
           \<and> snd (tick_begin now rows) = Some (k\<lparr>status := Uploading\<rparr>)"
proof -
  have "findOne_due now rows \<noteq> None"
    using assms(2,3) by (auto simp: findOne_due_None_iff)
  then obtain k where k: "findOne_due now rows = Some k" by auto
  have "k \<in> set rows" "scheduledTime k \<le> scheduledTime r"
    using findOne_due_Some [OF k] assms(2,3) by auto
  moreover have "snd (tick_begin now rows) = Some (k\<lparr>status := Uploading\<rparr>)"
    using tick_picks(1) [OF assms(1) k] by simp
  ultimately show ?thesis by blast
qed

text \<open>
  C6 (as amended). When the connection comes up, start-up rewrites every row in
  \<open>'Uploading'\<close> to \<open>'Pending'\<close> with \<open>error\<close> set to the fixed text
  \<open>'Server restarted during upload'\<close> and leaves every other row unchanged. Afterwards no
  row is \<open>'Uploading'\<close>, and at any tick at or after the \<open>scheduledTime\<close> of a reset row a
  job is selected whose \<open>scheduledTime\<close> is not later than that of the reset row.
\<close>

theorem recovery_resets_uploading:
  assumes "authenticate c = Inr ()" and "sync c = Inr ()"
  shows "videos (initDB c d)
           = map (\<lambda>r. if status r = Uploading
                       then r\<lparr>status := Pending, error := Some ''Server restarted during upload''\<rparr>
                       else r) (videos d)
       \<and> (\<forall>r\<in>set (videos (initDB c d)). status r \<noteq> Uploading)
       \<and> (\<forall>r\<in>set (videos d). status r \<noteq> Uploading \<longrightarrow> r \<in> set (videos (initDB c d)))
       \<and> (\<forall>r\<in>set (videos d). status r = Uploading \<longrightarrow>
            r\<lparr>status := Pending, error := Some ''Server restarted during upload''\<rparr>
              \<in> set (videos (initDB c d)))
       \<and> (\<forall>r\<in>set (videos d). status r = Uploading \<longrightarrow>
            (\<forall>now. scheduledTime r \<le> now \<longrightarrow>
               (\<exists>k\<in>set (videos (initDB c d)). scheduledTime k \<le> scheduledTime r
                  \<and> snd (tick_begin now (videos (initDB c d))) = Some (k\<lparr>status := Uploading\<rparr>))))"
proof -
  let ?reset = "\<lambda>r. r\<lparr>status := Pending, error := Some ''Server restarted during upload''\<rparr>"
  have eq: "videos (initDB c d) = reset_stuck (videos d)"
    using assms by (rule initDB_online)
  have none: "\<forall>r\<in>set (videos (initDB c d)). status r \<noteq> Uploading"
    unfolding eq by (rule reset_stuck_no_uploading)
  have keep: "\<forall>r\<in>set (videos d). status r \<noteq> Uploading \<longrightarrow> r \<in> set (videos (initDB c d))"
    unfolding eq by (force simp: reset_stuck_def)
  have moved: "\<forall>r\<in>set (videos d). status r = Uploading \<longrightarrow> ?reset r \<in> set (videos (initDB c d))"
    unfolding eq by (force simp: reset_stuck_def)
  have again: "\<forall>r\<in>set (videos d). status r = Uploading \<longrightarrow>
      (\<forall>now. scheduledTime r \<le> now \<longrightarrow>
         (\<exists>k\<in>set (videos (initDB c d)). scheduledTime k \<le> scheduledTime r
            \<and> snd (tick_begin now (videos (initDB c d))) = Some (k\<lparr>status := Uploading\<rparr>)))"
  proof (intro ballI impI allI)
    fix r now assume r: "r \<in> set (videos d)" "status r = Uploading" "scheduledTime r \<le> now"
    have m: "?reset r \<in> set (videos (initDB c d))" using moved r(1,2) by blast
    have due: "is_due now (?reset r)" using r(3) by (simp add: is_due_def)
    show "\<exists>k\<in>set (videos (initDB c d)). scheduledTime k \<le> scheduledTime r
            \<and> snd (tick_begin now (videos (initDB c d))) = Some (k\<lparr>status := Uploading\<rparr>)"
      using tick_begin_after_reset [OF none m due] by simp
  qed
  have eq': "videos (initDB c d)
      = map (\<lambda>r. if status r = Uploading then ?reset r else r) (videos d)"
    using eq by (simp add: reset_stuck_def)
  from eq' none keep moved again show ?thesis by (intro conjI)
qed

theorem recovery_resets_uploading_witness:
  "authenticate online = Inr () \<and> sync online = Inr ()
   \<and> videos (initDB online crashed)
       = [(job 1 10 Pending)\<lparr>error := Some ''Server restarted during upload''\<rparr>,
          job 2 5 Done, job 3 20 Pending]
   \<and> snd (tick_begin 15 (videos (initDB online crashed)))
       = Some ((job 1 10 Uploading)\<lparr>error := Some ''Server restarted during upload''\<rparr>)"
proof -
  have a: "authenticate online = Inr ()" and s: "sync online = Inr ()"
    by (simp_all add: online_def)
  show ?thesis
    using a s recovery_resets_uploading [OF a s, of crashed]
    by (simp add: crashed_def job_def tick_begin_def findOne_status_def findOne_due_def
        is_due_def save_def)
qed

theorem recovery_diagnostic_counterexample:
  "status (hd (videos crashed)) = Uploading
   \<and> error (hd (videos (initDB online crashed))) \<noteq> Some ''interrupted by restart''"
  by (simp add: crashed_def job_def initDB_def online_def reset_stuck_def)

lemma set_thumbnail_effects:
  "set_thumbnail w v th = [] \<or> set_thumbnail w v th = [ThumbnailSet v]"
  by (simp add: set_thumbnail_def split: option.split sum.split)

lemma post_comment_effects:
  "post_comment w v c = [] \<or> post_comment w v c = [CommentPosted v]"
  by (simp add: post_comment_def split: sum.split)

lemma post_and_pin_comment_effects:
  "post_and_pin_comment w v c = [] \<or> post_and_pin_comment w v c = [CommentPosted v]
   \<or> (\<exists>i. post_and_pin_comment w v c = [CommentPosted v, CommentPinned i])"
  by (simp add: post_and_pin_comment_def split: sum.split)

lemma processUpload_inserted:
  assumes "VideoInserted v \<in> set (snd (processUpload w f t d th c tg h))"
  shows "fst (processUpload w f t d th c tg h) = Inr v"
proof (cases "fst (processUpload w f t d th c tg h)")
  case (Inl e)
  then have "snd (processUpload w f t d th c tg h) = []"
    by (auto simp: processUpload_def split: sum.splits if_splits prod.splits)
  with assms show ?thesis by simp
next
  case (Inr u)
  then have "snd (processUpload w f t d th c tg h)
      = VideoInserted u # set_thumbnail w u th @ post_comment w u c"
    by (auto simp: processUpload_def split: sum.splits if_splits prod.splits)
  with assms have "v = u"
    using set_thumbnail_effects [of w u th] post_comment_effects [of w u c] by auto
  with Inr show ?thesis by simp
qed

lemma processUpload_001_inserted:
  assumes "VideoInserted v \<in> set (snd (processUpload_001 w f t d th c))"
  shows "fst (processUpload_001 w f t d th c) = Inr v"
proof (cases "fst (processUpload_001 w f t d th c)")
  case (Inl e)
  then have "snd (processUpload_001 w f t d th c) = []"
    by (auto simp: processUpload_001_def split: sum.splits if_splits)
  with assms show ?thesis by simp
next
  case (Inr u)
  then have "snd (processUpload_001 w f t d th c)
      = VideoInserted u # set_thumbnail w u th @ post_and_pin_comment w u c"
    by (auto simp: processUpload_001_def split: sum.splits if_splits)
  with assms have "v = u"
    using set_thumbnail_effects [of w u th] post_and_pin_comment_effects [of w u c] by auto
  with Inr show ?thesis by simp
qed

lemma getStoredTokens_substeps:
  "getStoredTokens (w\<lparr>thumbnails_set := ts, commentThreads_insert := ci,
                        comments_setManagementStatus := cs\<rparr>) = getStoredTokens w"
  by (simp add: getStoredTokens_def split: sum.split option.split)

lemma parse_tags_substeps:
  "parse_tags (w\<lparr>thumbnails_set := ts, commentThreads_insert := ci,
                   comments_setManagementStatus := cs\<rparr>) a b c = parse_tags w a b c"
  by (simp add: parse_tags_def split: option.split json.split)

lemma set_thumbnail_refused:
  "\<forall>a b. thumbnails_set w a b \<noteq> Inr () \<Longrightarrow> set_thumbnail w v th = []"
  by (simp add: set_thumbnail_def split: option.split sum.split)

lemma post_comment_refused:
  "\<forall>a b i. commentThreads_insert w a b \<noteq> Inr i \<Longrightarrow> post_comment w v c = []"
  by (simp add: post_comment_def split: sum.split)

lemma post_and_pin_comment_refused:
  "\<forall>a b i. commentThreads_insert w a b \<noteq> Inr i \<Longrightarrow> post_and_pin_comment w v c = []"
  by (simp add: post_and_pin_comment_def split: sum.split)

text \<open>
  C10. Stated on the answers of the remote services. When the stored tokens, the Drive
  download and the video insert answer without error, the insert returning the id \<open>v\<close>,
  then for every answer of \<open>thumbnails.set\<close>, \<open>commentThreads.insert\<close> and
  \<open>comments.setManagementStatus\<close> the pipeline returns \<open>v\<close> and the tick records the job as
  \<open>'Done'\<close> with that id; when the thumbnail and the comment calls throw, nothing but the
  insert was applied. The same holds for the pipeline of the second server file.
\<close>

theorem upload_id_survives_substeps:
  assumes "getStoredTokens w = Inr tokens" and "\<not> falsy tokens"
    and "drive_files_get w (driveFileId j) = Inr media"
    and "w' = w\<lparr>thumbnails_set := ts, commentThreads_insert := ci,
                  comments_setManagementStatus := cs\<rparr>"
  shows "(slice_50 (snd (parse_tags w (tags j) (hashtags j)
                       (or_else (description j) ''Uploaded via V-UPLOAD AI''))) = Inr sliced
          \<and> videos_insert w (take 100 (or_else (title j) ''Untitled Video''))
                (fst (parse_tags w (tags j) (hashtags j)
                       (or_else (description j) ''Uploaded via V-UPLOAD AI'')))
                sliced media = Inr v
          \<longrightarrow> run_upload w' j
                = (Inr v, VideoInserted v # set_thumbnail w' v (thumbnail j)
                                         @ post_comment w' v (firstComment j))
            \<and> fst (tick_end w' j rows)
                = save (j\<lparr>status := Done, youtubeId := Some v, error := None\<rparr>) rows
            \<and> ((\<forall>a b. ts a b \<noteq> Inr ()) \<and> (\<forall>a b i. ci a b \<noteq> Inr i) \<longrightarrow>
                  run_upload w' j = (Inr v, [VideoInserted v])))
       \<and> (videos_insert w (take 100 (or_else (title j) ''Untitled Video''))
             (or_else (description j) ''Uploaded via V-UPLOAD AI'') JNull media = Inr v
          \<longrightarrow> processUpload_001 w' (driveFileId j) (title j) (description j) (thumbnail j)
                 (firstComment j)
                = (Inr v, VideoInserted v # set_thumbnail w' v (thumbnail j)
                                         @ post_and_pin_comment w' v (firstComment j))
            \<and> ((\<forall>a b. ts a b \<noteq> Inr ()) \<and> (\<forall>a b i. ci a b \<noteq> Inr i) \<longrightarrow>
                  processUpload_001 w' (driveFileId j) (title j) (description j) (thumbnail j)
                    (firstComment j) = (Inr v, [VideoInserted v])))"
proof -
  have tok: "getStoredTokens w' = Inr tokens"
    using assms(1) by (simp only: assms(4) getStoredTokens_substeps)
  have drv: "drive_files_get w' (driveFileId j) = Inr media"
    using assms(3) by (simp add: assms(4))
  have pt: "parse_tags w' a b c = parse_tags w a b c" for a b c
    by (simp only: assms(4) parse_tags_substeps)
  have ins: "videos_insert w' = videos_insert w" by (simp add: assms(4))
  have ts: "thumbnails_set w' = ts" and ci: "commentThreads_insert w' = ci"
    by (simp_all add: assms(4))
  show ?thesis
  proof (intro conjI impI)
    assume a: "slice_50 (snd (parse_tags w (tags j) (hashtags j)
                       (or_else (description j) ''Uploaded via V-UPLOAD AI''))) = Inr sliced
          \<and> videos_insert w (take 100 (or_else (title j) ''Untitled Video''))
                (fst (parse_tags w (tags j) (hashtags j)
                       (or_else (description j) ''Uploaded via V-UPLOAD AI'')))
                sliced media = Inr v"
    show r: "run_upload w' j
                = (Inr v, VideoInserted v # set_thumbnail w' v (thumbnail j)
                                         @ post_comment w' v (firstComment j))"
      using a tok assms(2) drv
      by (simp add: run_upload_def processUpload_def pt ins case_prod_beta)
    show "fst (tick_end w' j rows)
                = save (j\<lparr>status := Done, youtubeId := Some v, error := None\<rparr>) rows"
      using r by (rule tick_end_success(1))
    assume "(\<forall>a b. ts a b \<noteq> Inr ()) \<and> (\<forall>a b i. ci a b \<noteq> Inr i)"
    then have "set_thumbnail w' v (thumbnail j) = []" "post_comment w' v (firstComment j) = []"
      by (simp_all add: set_thumbnail_refused post_comment_refused ts ci)
    then show "run_upload w' j = (Inr v, [VideoInserted v])" using r by simp
  next
    assume a: "videos_insert w (take 100 (or_else (title j) ''Untitled Video''))
             (or_else (description j) ''Uploaded via V-UPLOAD AI'') JNull media = Inr v"
    show r: "processUpload_001 w' (driveFileId j) (title j) (description j) (thumbnail j)
                 (firstComment j)
                = (Inr v, VideoInserted v # set_thumbnail w' v (thumbnail j)
                                         @ post_and_pin_comment w' v (firstComment j))"
      using a tok assms(2) drv by (simp add: processUpload_001_def ins)
    assume "(\<forall>a b. ts a b \<noteq> Inr ()) \<and> (\<forall>a b i. ci a b \<noteq> Inr i)"
    then have "set_thumbnail w' v (thumbnail j) = []"
      "post_and_pin_comment w' v (firstComment j) = []"
      by (simp_all add: set_thumbnail_refused post_and_pin_comment_refused ts ci)
    then show "processUpload_001 w' (driveFileId j) (title j) (description j) (thumbnail j)
                    (firstComment j) = (Inr v, [VideoInserted v])" using r by simp
  qed
qed


theorem upload_id_survives_substeps_witness:
  "getStoredTokens studio = Inr (JObj [(''access_token'', JStr ''t'')])
   \<and> \<not> falsy (JObj [(''access_token'', JStr ''t'')])
   \<and> drive_files_get studio (driveFileId (job 2 10 Uploading)) = Inr ''bytes''
   \<and> videos_insert studio ''clip'' ''Uploaded via V-UPLOAD AI'' (JArr []) ''bytes'' = Inr ''yt-1''
   \<and> videos_insert studio ''clip'' ''Uploaded via V-UPLOAD AI'' JNull ''bytes'' = Inr ''yt-1''
   \<and> run_upload studio (job 2 10 Uploading) = (Inr ''yt-1'', [VideoInserted ''yt-1''])
   \<and> processUpload_001 studio ''drive-file'' (Some ''clip'') None
        (Some ''data:image/jpeg;base64,AAAA'') (Some ''first'')
       = (Inr ''yt-1'', [VideoInserted ''yt-1''])
   \<and> fst (tick_end studio (job 2 10 Uploading) [job 2 10 Uploading])
       = [(job 2 10 Done)\<lparr>youtubeId := Some ''yt-1''\<rparr>]
   \<and> run_upload (studio\<lparr>thumbnails_set := (\<lambda>v b. Inr ()),
                          commentThreads_insert := (\<lambda>v c. Inr ''c-1''),
                          comments_setManagementStatus := (\<lambda>c. Inr ())\<rparr>)
        (job 2 10 Uploading)
       = (Inr ''yt-1'', [VideoInserted ''yt-1'', ThumbnailSet ''yt-1'', CommentPosted ''yt-1''])
   \<and> processUpload_001 (studio\<lparr>thumbnails_set := (\<lambda>v b. Inr ()),
                          commentThreads_insert := (\<lambda>v c. Inr ''c-1''),
                          comments_setManagementStatus := (\<lambda>c. Inr ())\<rparr>)
        ''drive-file'' (Some ''clip'') None
        (Some ''data:image/jpeg;base64,AAAA'') (Some ''first'')
       = (Inr ''yt-1'', [VideoInserted ''yt-1'', ThumbnailSet ''yt-1'', CommentPosted ''yt-1'',
                         CommentPinned ''c-1''])"
proof -
  have tok: "getStoredTokens studio = Inr (JObj [(''access_token'', JStr ''t'')])"
    by (simp add: getStoredTokens_def studio_def)
  have nf: "\<not> falsy (JObj [(''access_token'', JStr ''t'')])"
    by (simp add: falsy_def)
  have drv: "drive_files_get studio (driveFileId (job 2 10 Uploading)) = Inr ''bytes''"
    by (simp add: studio_def)
  have same: "studio = studio\<lparr>thumbnails_set := (\<lambda>v b. Inl ''forbidden''),
                  commentThreads_insert := (\<lambda>v c. Inl ''comments disabled''),
                  comments_setManagementStatus := (\<lambda>c. Inl ''forbidden'')\<rparr>"
    by (simp add: studio_def)
  have pt: "parse_tags studio (tags (job 2 10 Uploading)) (hashtags (job 2 10 Uploading))
              ''Uploaded via V-UPLOAD AI'' = (''Uploaded via V-UPLOAD AI'', JArr [])"
    by (simp add: parse_tags_def job_def truthy_def or_else_def)
  have sub: "thumbnails_set studio a b = Inl ''forbidden''"
    "commentThreads_insert studio a b = Inl ''comments disabled''"
    "drive_files_get studio a = Inr ''bytes''" for a b
    by (simp_all add: studio_def)
  have sl: "slice_50 (JArr []) = Inr (JArr [])" by (simp add: slice_50_def)
  have ins: "videos_insert studio t d g m = Inr ''yt-1''" for t d g m
    by (simp add: studio_def)
  have th: "set_thumbnail w ''yt-1'' (Some ''data:image/jpeg;base64,AAAA'')
              = (case thumbnails_set w ''yt-1'' ''AAAA'' of Inl e \<Rightarrow> []
                 | Inr u \<Rightarrow> [ThumbnailSet ''yt-1''])" for w
    by (simp add: set_thumbnail_def truthy_def or_else_def nth_opt_def)
  have pc: "post_comment w ''yt-1'' (Some ''first'')
              = (case commentThreads_insert w ''yt-1'' ''first'' of Inl e \<Rightarrow> []
                 | Inr u \<Rightarrow> [CommentPosted ''yt-1''])" for w
    by (simp add: post_comment_def truthy_def or_else_def)
  have pp: "post_and_pin_comment w ''yt-1'' (Some ''first'')
              = (case commentThreads_insert w ''yt-1'' ''first'' of Inl e \<Rightarrow> []
                 | Inr commentId \<Rightarrow> CommentPosted ''yt-1''
                     # (case comments_setManagementStatus w commentId of Inl e \<Rightarrow> []
                        | Inr u \<Rightarrow> [CommentPinned commentId]))" for w
    by (simp add: post_and_pin_comment_def truthy_def or_else_def)
  have flds: "driveFileId (job 2 10 Uploading) = ''drive-file''"
    "title (job 2 10 Uploading) = Some ''clip''" "description (job 2 10 Uploading) = None"
    "thumbnail (job 2 10 Uploading) = Some ''data:image/jpeg;base64,AAAA''"
    "firstComment (job 2 10 Uploading) = Some ''first''"
    by (simp_all add: job_def)
  have sv: "save ((job 2 10 Uploading)\<lparr>status := Done, youtubeId := Some ''yt-1'', error := None\<rparr>)
              [job 2 10 Uploading] = [(job 2 10 Done)\<lparr>youtubeId := Some ''yt-1''\<rparr>]"
    by (simp add: save_def job_def)
  note a = upload_id_survives_substeps [where w = studio and j = "job 2 10 Uploading"
      and tokens = "JObj [(''access_token'', JStr ''t'')]" and media = "''bytes''"
      and sliced = "JArr []" and v = "''yt-1''" and rows = "[job 2 10 Uploading]"
      and w' = studio
      and ts = "\<lambda>v b. Inl ''forbidden''" and ci = "\<lambda>v c. Inl ''comments disabled''"
      and cs = "\<lambda>c. Inl ''forbidden''", OF tok nf drv same]
  note b = upload_id_survives_substeps [where w = studio and j = "job 2 10 Uploading"
      and tokens = "JObj [(''access_token'', JStr ''t'')]" and media = "''bytes''"
      and sliced = "JArr []" and v = "''yt-1''" and rows = "[job 2 10 Uploading]"
      and ts = "\<lambda>v b. Inr ()" and ci = "\<lambda>v c. Inr ''c-1''"
      and cs = "\<lambda>c. Inr ()", OF tok nf drv refl]
  show ?thesis
    using a b
    by (simp add: tok nf pt sub sl ins th pc pp flds sv or_else_def)
qed

text \<open>
  C9 (as amended). The suggestion never throws. When the generative call throws or
  its text does not parse, the result is the fixed object with \<open>title\<close> the filename and
  \<open>description\<close> \<open>'Uploaded via V-UPLOAD AI'\<close>; the first server file adds the keys
  \<open>tags\<close> and \<open>hashtags\<close> with fixed lists, the second has these two keys only.
\<close>

theorem metadata_fallback:
  "(\<exists>v. generateMetadata w filename = Inr v)
   \<and> (\<exists>v. generateMetadata_001 w filename = Inr v)
   \<and> (suggestion_fails w filename \<longrightarrow>
        generateMetadata w filename
          = Inr (JObj [(''title'', JStr filename),
                       (''description'', JStr ''Uploaded via V-UPLOAD AI''),
                       (''tags'', JArr [JStr ''automation'', JStr ''uploader'']),
                       (''hashtags'', JArr [JStr ''#VUpload'', JStr ''#Automation''])])
      \<and> generateMetadata_001 w filename
          = Inr (JObj [(''title'', JStr filename),
                       (''description'', JStr ''Uploaded via V-UPLOAD AI'')]))"
  by (auto simp: generateMetadata_def generateMetadata_001_def suggestion_fails_def
      fallback_def fallback_001_def split: sum.splits option.splits)

theorem metadata_fallback_witness:
  "suggestion_fails studio ''clip.mp4''
   \<and> generateMetadata studio ''clip.mp4''
       = Inr (JObj [(''title'', JStr ''clip.mp4''),
                    (''description'', JStr ''Uploaded via V-UPLOAD AI''),
                    (''tags'', JArr [JStr ''automation'', JStr ''uploader'']),
                    (''hashtags'', JArr [JStr ''#VUpload'', JStr ''#Automation''])])
   \<and> generateMetadata_001 studio ''clip.mp4''
       = Inr (JObj [(''title'', JStr ''clip.mp4''),
                    (''description'', JStr ''Uploaded via V-UPLOAD AI'')])"
proof -
  have f: "suggestion_fails studio ''clip.mp4''"
    by (simp add: suggestion_fails_def studio_def)
  show ?thesis using f metadata_fallback [of studio "''clip.mp4''"] by simp
qed

theorem metadata_fallback_counterexample:
  "suggestion_fails studio ''clip.mp4''
   \<and> generateMetadata studio ''clip.mp4''
       \<noteq> Inr (JObj [(''title'', JStr ''clip.mp4''),
                    (''description'', JStr ''Uploaded via V-UPLOAD AI'')])"
  by (simp add: suggestion_fails_def generateMetadata_def fallback_def studio_def)

lemma initDB_skipped:
  assumes "(\<exists>e. authenticate c = Inl e) \<or> (\<exists>e. sync c = Inl e)"
  shows "initDB c d = d"
  using assms by (auto simp: initDB_def split: sum.splits)

text \<open>
  C7 (as amended). A start of the process calls \<open>initDB\<close> once and does not wait for
  it. When the connection and the schema synchronisation succeed, \<open>initDB\<close> leaves no
  row in \<open>'Uploading'\<close>, so a tick that runs after it finds none; a second completion
  does not happen. When either fails, \<open>initDB\<close> leaves the table as it was. A tick that
  finds a row in \<open>'Uploading'\<close>, before \<open>initDB\<close> has finished or after it was skipped,
  changes nothing.
\<close>

theorem recovery_at_startup:
  "(authenticate c = Inr () \<and> sync c = Inr () \<longrightarrow>
      findOne_status Uploading (videos (initDB c d)) = None)
   \<and> ((\<exists>e. authenticate c = Inl e) \<or> (\<exists>e. sync c = Inl e) \<longrightarrow> initDB c d = d)
   \<and> starting (step Boot s)
   \<and> store (step Boot s) = store s
   \<and> (starting s \<longrightarrow>
        store (step (InitDB c) s) = initDB c (store s) \<and> \<not> starting (step (InitDB c) s))
   \<and> (\<not> starting s \<longrightarrow> step (InitDB c) s = s)
   \<and> ((\<exists>r\<in>set rows. status r = Uploading) \<longrightarrow> tick w now rows = (rows, []))"
proof (intro conjI impI)
  assume "authenticate c = Inr () \<and> sync c = Inr ()"
  then have "videos (initDB c d) = reset_stuck (videos d)" by (simp add: initDB_online)
  then show "findOne_status Uploading (videos (initDB c d)) = None"
    by (simp add: findOne_status_None_iff reset_stuck_no_uploading)
next
  assume "(\<exists>e. authenticate c = Inl e) \<or> (\<exists>e. sync c = Inl e)"
  then show "initDB c d = d" by (rule initDB_skipped)
next
  assume "\<exists>r\<in>set rows. status r = Uploading"
  then show "tick w now rows = (rows, [])" by (rule tick_idle_busy)
qed simp_all

theorem recovery_at_startup_witness:
  "authenticate online = Inr () \<and> sync online = Inr ()
   \<and> starting (step Boot halted)
   \<and> map status (videos (store (run [Boot, InitDB online] halted))) = [Pending, Done, Pending]
   \<and> map status (videos (store (run [Boot, InitDB online, Tick 100] halted)))
       = [Uploading, Done, Pending]
   \<and> map status (videos (store (run [Boot, InitDB online, InitDB online] halted)))
       = [Pending, Done, Pending]"
proof -
  have a: "authenticate online = Inr () \<and> sync online = Inr ()" by (simp add: online_def)
  have b: "starting (step Boot halted)" by simp
  have r: "videos (initDB online crashed)
      = [(job 1 10 Pending)\<lparr>error := Some ''Server restarted during upload''\<rparr>,
         job 2 5 Done, job 3 20 Pending]"
    by (simp add: initDB_def online_def crashed_def reset_stuck_def job_def)
  show ?thesis
    using a b recovery_at_startup [where c = online and d = crashed and s = "step Boot halted"]
    by (simp add: run_def halted_def r tick_begin_def findOne_status_def findOne_due_def
        is_due_def save_def job_def)
qed

theorem recovery_at_startup_counterexample:
  "map status (videos (store halted)) = [Uploading, Done, Pending]
   \<and> map status (videos (store (run [Boot, InitDB unsynced] halted))) = [Uploading, Done, Pending]
   \<and> run [Boot, InitDB unsynced, Tick 100] halted = run [Boot, InitDB unsynced] halted
   \<and> run [Boot, Tick 100, InitDB online] halted = run [Boot, InitDB online] halted"
  by (simp add: run_def halted_def crashed_def job_def initDB_def unsynced_def online_def
      tick_begin_def findOne_status_def)

subsection \<open>Single flight\<close>

text \<open>
  A callback that is resumed without interruption is the tick.
\<close>

lemma tick_begin_resume:
  "interleave w [(0, now), (0, now), (0, now)] (rows, [Some Entered])
     = (fst (tick_begin now rows), [map_option Awaiting (snd (tick_begin now rows))])"
  by (simp add: interleave_def tick_begin_def split: option.split)

lemma tick_resume:
  "fst (interleave w [(0, now), (0, now), (0, now), (0, now)] (rows, [Some Entered]))
     = fst (tick w now rows)"
  by (simp add: interleave_def tick_begin_def tick_def split: option.split prod.split)

text \<open>
  C1. The table does not keep to at most one row in \<open>'Uploading'\<close>. A bulk creation
  writes the \<open>status\<close> an entry names to its row: from the empty table, one request with
  two entries that name \<open>'Uploading'\<close> leaves two such rows. And two callbacks of the
  timer whose awaits interleave both pass the check for a row in \<open>'Uploading'\<close> before
  either has saved: on a table with three pending rows, two of them due, and none in
  \<open>'Uploading'\<close>, each callback selects and saves a row, which leaves two rows in
  \<open>'Uploading'\<close>.
\<close>

theorem single_flight_broken:
  "count_uploading (videos (store fresh)) = 0
   \<and> count_uploading
         (videos (store (run [Post_schedule_bulk studio [forged, forged]] fresh))) = 2
   \<and> count_uploading backlog = 0
   \<and> map (\<lambda>r. (id_col r, status r))
         (fst (interleave studio [(0, 40), (1, 55), (0, 40), (0, 40), (1, 55), (1, 55)]
                 (backlog, [Some Entered, Some Entered])))
       = [(1, Uploading), (2, Uploading), (3, Pending), (4, Done)]
   \<and> count_uploading
         (fst (interleave studio [(0, 40), (1, 55), (0, 40), (0, 40), (1, 55), (1, 55)]
                 (backlog, [Some Entered, Some Entered]))) = 2"
  by code_simp

section \<open>Properties of the schedule expansion\<close>

lemma digit_char_code: "a < 10 \<Longrightarrow> (of_char (char_of (48 + a :: nat)) :: nat) = 48 + a"
  by simp

lemma digit_char_neq:
  assumes "a < 10" and "(of_char d :: nat) < 48 \<or> 57 < (of_char d :: nat)"
  shows "char_of (48 + a :: nat) \<noteq> d"
proof
  assume "char_of (48 + a) = d"
  then have "(of_char d :: nat) = 48 + a" using digit_char_code [OF assms(1)] by simp
  with assms show False by simp
qed

lemma digit_char_not_space: "a < 10 \<Longrightarrow> \<not> is_space (char_of (48 + a :: nat))"
  by (simp add: is_space_def digit_char_neq)

lemma digit_of_digit_char: "a < 10 \<Longrightarrow> digit_of (char_of (48 + a :: nat)) = Some a"
  by (simp add: digit_of_def)

lemma in_radix_digit_char: "a < 10 \<Longrightarrow> in_radix 10 (char_of (48 + a :: nat))"
  by (simp add: in_radix_def digit_of_digit_char)

lemma digit_value_digit_char: "a < 10 \<Longrightarrow> digit_value (char_of (48 + a :: nat)) = a"
  by (simp add: digit_value_def digit_of_digit_char)

lemma parseInt_two_digits:
  assumes "a < 10" and "b < 10"
  shows "parseInt (Some [char_of (48 + a :: nat), char_of (48 + b :: nat)]) = Some (int (10 * a + b))"
proof -
  let ?s = "[char_of (48 + a), char_of (48 + b)]"
  have n: "number_in 10 ?s = Some (int (10 * a + b))"
    using assms by (simp add: number_in_def in_radix_digit_char digit_value_digit_char)
  have x: "char_of (48 + b) \<noteq> CHR ''x''" "char_of (48 + b) \<noteq> CHR ''X''"
    using assms(2) by (simp_all add: digit_char_neq)
  have u: "unsigned_in ?s = Some (int (10 * a + b))"
    using n x by (simp add: unsigned_in_def)
  have s: "dropWhile is_space ?s = ?s"
    using assms(1) by (simp add: digit_char_not_space)
  have m: "char_of (48 + a) \<noteq> CHR ''-''" "char_of (48 + a) \<noteq> CHR ''+''"
    using assms(1) by (simp_all add: digit_char_neq)
  show ?thesis using s m u by (simp add: parseInt_def)
qed

lemma split_hhmm:
  assumes "h < 100" and "m < 100"
  shows "split_on CHR '':'' (hhmm h m)
           = [char_of (48 + h div 10), char_of (48 + h mod 10)]
               # [char_of (48 + m div 10), char_of (48 + m mod 10)] # []"
proof -
  have "h div 10 < 10" "h mod 10 < 10" "m div 10 < 10" "m mod 10 < 10"
    using assms by simp_all
  then have "char_of (48 + h div 10) \<noteq> CHR '':''" "char_of (48 + h mod 10) \<noteq> CHR '':''"
    "char_of (48 + m div 10) \<noteq> CHR '':''" "char_of (48 + m mod 10) \<noteq> CHR '':''"
    by (simp_all add: digit_char_neq)
  then show ?thesis by (simp add: hhmm_def)
qed

lemma parse_hhmm:
  assumes "h < 100" and "m < 100"
  shows "parseInt (nth_opt (split_on CHR '':'' (hhmm h m)) 0) = Some (int h)"
    and "parseInt (nth_opt (split_on CHR '':'' (hhmm h m)) (Suc 0)) = Some (int m)"
proof -
  have d: "h div 10 < 10" "h mod 10 < 10" "m div 10 < 10" "m mod 10 < 10"
    using assms by simp_all
  show "parseInt (nth_opt (split_on CHR '':'' (hhmm h m)) 0) = Some (int h)"
    using parseInt_two_digits [OF d(1,2)] by (simp add: split_hhmm [OF assms] nth_opt_def)
  show "parseInt (nth_opt (split_on CHR '':'' (hhmm h m)) (Suc 0)) = Some (int m)"
    using parseInt_two_digits [OF d(3,4)] by (simp add: split_hhmm [OF assms] nth_opt_def)
qed

lemma in_radix_10_char:
  assumes "in_radix 10 c"
  shows "c = char_of (48 + digit_value c)" and "digit_value c < 10"
proof -
  let ?n = "of_char c :: nat"
  from assms have r: "48 \<le> ?n \<and> ?n \<le> 57"
    by (auto simp: in_radix_def digit_of_def Let_def split: if_splits)
  then have v: "digit_value c = ?n - 48"
    by (simp add: digit_value_def digit_of_def)
  show "digit_value c < 10" using r v by arith
  have "char_of (48 + digit_value c) = char_of ?n" using r v by simp
  then show "c = char_of (48 + digit_value c)" by simp
qed

lemma is_hhmm_hhmm:
  assumes "is_hhmm s"
  shows "\<exists>h m. h < 24 \<and> m < 60 \<and> s = hhmm h m"
proof -
  from assms obtain a b c d e where s: "s = [a, b, c, d, e]"
    by (auto simp: is_hhmm_def split: list.splits)
  from assms s have c: "c = CHR '':''"
    and r: "in_radix 10 a" "in_radix 10 b" "in_radix 10 d" "in_radix 10 e"
    and h: "10 * digit_value a + digit_value b < 24"
    and m: "10 * digit_value d + digit_value e < 60"
    by (simp_all add: is_hhmm_def)
  let ?h = "10 * digit_value a + digit_value b"
  let ?m = "10 * digit_value d + digit_value e"
  have dv: "digit_value b < 10" "digit_value e < 10"
    using r in_radix_10_char(2) by simp_all
  have "?h div 10 = digit_value a" "?h mod 10 = digit_value b"
    "?m div 10 = digit_value d" "?m mod 10 = digit_value e"
    using dv by simp_all
  then have "hhmm ?h ?m = [a, b, CHR '':'', d, e]"
    using in_radix_10_char(1) [OF r(1)] in_radix_10_char(1) [OF r(2)]
      in_radix_10_char(1) [OF r(3)] in_radix_10_char(1) [OF r(4)]
    by (simp add: hhmm_def)
  then have "s = hhmm ?h ?m" using s c by simp
  with h m show ?thesis by blast
qed

lemma msPerDay_pos: "0 < msPerDay"
  by (simp add: msPerDay_def)

lemma Day_decomp: "Day t * msPerDay + TimeWithinDay t = t"
  by (simp add: Day_def TimeWithinDay_def)

lemma TimeWithinDay_range: "0 \<le> TimeWithinDay t" "TimeWithinDay t < msPerDay"
  using msPerDay_pos by (simp_all add: TimeWithinDay_def)

lemma Day_of_sum:
  assumes "0 \<le> r" and "r < msPerDay"
  shows "Day (k * msPerDay + r) = k"
proof -
  have "(k * msPerDay + r) div msPerDay = k"
    using assms msPerDay_pos by (simp add: div_pos_pos_trivial)
  then show ?thesis by (simp add: Day_def)
qed

lemma getDay_range: "0 \<le> getDay tz t" "getDay tz t \<le> 6"
  by (simp_all add: getDay_def WeekDay_def) 

lemma setDate_on_day:
  assumes "Day (date0 + tz) = Day (now + tz)"
  shows "setDate tz date0 (getDate tz now + k) + tz
           = (Day (now + tz) + k) * msPerDay + TimeWithinDay (date0 + tz)"
  using assms by (simp add: setDate_def getDate_def DateFromTime_def)

lemma setDate_add_days: "setDate tz t (getDate tz t + k) = t + k * msPerDay"
proof -
  have "setDate tz t (getDate tz t + k) + tz = (Day (t + tz) + k) * msPerDay + TimeWithinDay (t + tz)"
    by (rule setDate_on_day) simp
  also have "\<dots> = Day (t + tz) * msPerDay + TimeWithinDay (t + tz) + k * msPerDay"
    by (simp add: algebra_simps)
  also have "\<dots> = t + tz + k * msPerDay" by (simp only: Day_decomp)
  finally show ?thesis by simp
qed

lemma day_shift_mod:
  assumes "0 \<le> dayIndex" and "dayIndex \<le> 6"
  shows "day_shift tz now dayIndex = (dayIndex - getDay tz now + 7) mod 7"
proof (cases "dayIndex - getDay tz now < 0")
  case True
  have "0 \<le> dayIndex - getDay tz now + 7" "dayIndex - getDay tz now + 7 < 7"
    using True assms getDay_range [of tz now] by simp_all
  then have "(dayIndex - getDay tz now + 7) mod 7 = dayIndex - getDay tz now + 7"
    by (rule mod_pos_pos_trivial)
  then show ?thesis using True by (simp only: day_shift_def if_True)
next
  case False
  have "0 \<le> dayIndex - getDay tz now" "dayIndex - getDay tz now < 7"
    using False assms getDay_range [of tz now] by simp_all
  then have "(dayIndex - getDay tz now) mod 7 = dayIndex - getDay tz now"
    by (rule mod_pos_pos_trivial)
  moreover have "(dayIndex - getDay tz now + 7) mod 7 = (dayIndex - getDay tz now) mod 7"
    by simp
  ultimately show ?thesis using False by (simp only: day_shift_def if_False)
qed

lemma day_shift_nonneg: "0 \<le> dayIndex \<Longrightarrow> 0 \<le> day_shift tz now dayIndex"
  using getDay_range [of tz now] by (auto simp: day_shift_def)

lemma spec_candidate_eq:
  assumes "0 \<le> dayIndex" and "dayIndex \<le> 6"
  shows "spec_candidate tz now dayIndex h m
           = (Day (now + tz) + day_shift tz now dayIndex) * msPerDay
             + (int h * 3600000 + int m * 60000) - tz"
  by (simp only: spec_candidate_def day_shift_mod [OF assms])

subsection \<open>The calendar\<close>

lemma year_days_step: "year_days y + 364 \<le> year_days (y + 1)"
proof -
  define a b c a' b' c' where "a = y div 4" and "b = y div 400" and "c = y div 100"
    and "a' = (y + 1) div 4" and "b' = (y + 1) div 400" and "c' = (y + 1) div 100"
  have "y div 4 \<le> (y + 1) div 4" by (rule zdiv_mono1) simp_all
  then have 1: "a \<le> a'" by (simp only: a_def a'_def)
  have "y div 400 \<le> (y + 1) div 400" by (rule zdiv_mono1) simp_all
  then have 2: "b \<le> b'" by (simp only: b_def b'_def)
  have "(y + 1) div 100 \<le> (y + 100) div 100" by (rule zdiv_mono1) simp_all
  also have "(y + 100) div 100 = y div 100 + 1" by simp
  finally have 3: "c' \<le> c + 1" by (simp only: c_def c'_def)
  have "365 * y + a - c + b + 364 \<le> 365 * (y + 1) + a' - c' + b'"
    using 1 2 3 by (simp add: algebra_simps)
  then show ?thesis
    by (simp only: year_days_def a_def b_def c_def a'_def b'_def c'_def)
qed

lemma month_days_step: "month_days mp + 30 \<le> month_days (mp + 1)"
proof -
  have "(153 * mp + 2) div 5 + 30 = (153 * mp + 2 + 5 * 30) div 5"
    by simp
  also have "\<dots> \<le> (153 * (mp + 1) + 2) div 5" by (rule zdiv_mono1) simp_all
  finally show ?thesis by (simp only: month_days_def)
qed

lemma month_start_step: "month_start n < month_start (n + 1)"
proof (cases "n mod 12 = 11")
  case True
  have "n + 1 = (n div 12 + 1) * 12 + (n mod 12 - 11)"
    by (simp add: algebra_simps)
  then have eq: "n + 1 = (n div 12 + 1) * 12" using True by simp
  have "(n + 1) div 12 = ((n div 12 + 1) * 12) div 12"
    and "(n + 1) mod 12 = ((n div 12 + 1) * 12) mod 12"
    by (rule arg_cong [OF eq])+
  then have d: "(n + 1) div 12 = n div 12 + 1" and m: "(n + 1) mod 12 = 0"
    by simp_all
  have e: "month_days 11 = 337" "month_days 0 = 0" by (simp_all add: month_days_def)
  show ?thesis
    using year_days_step [of "n div 12"] e
    unfolding month_start_def d m True by linarith
next
  case False
  have r: "0 \<le> n mod 12" "n mod 12 < 12" by simp_all
  then have lt: "n mod 12 + 1 < 12" using False by linarith
  define q r where "q = n div 12" and "r = n mod 12 + 1"
  have qr: "n + 1 = q * 12 + r" by (simp add: q_def r_def algebra_simps)
  have r0: "0 \<le> r" and r12: "r < 12" using r lt by (simp_all add: r_def)
  have "(q * 12 + r) div 12 = q + r div 12" by simp
  moreover have "r div 12 = 0" using r0 r12 by (rule div_pos_pos_trivial)
  ultimately have "(n + 1) div 12 = q" by (simp only: qr)
  then have d: "(n + 1) div 12 = n div 12" by (simp only: q_def)
  have "(q * 12 + r) mod 12 = r mod 12" by simp
  moreover have "r mod 12 = r" using r0 r12 by (rule mod_pos_pos_trivial)
  ultimately have "(n + 1) mod 12 = r" by (simp only: qr)
  then have m: "(n + 1) mod 12 = n mod 12 + 1" by (simp only: r_def)
  show ?thesis
    using month_days_step [of "n mod 12"]
    unfolding month_start_def d m by linarith
qed

lemma month_seek_bounds:
  "month_start (month_seek z n) \<le> z \<and> z < month_start (month_seek z n + 1)"
proof (induction z n rule: month_seek.induct)
  case (1 z n)
  show ?case
  proof (cases "z < month_start n")
    case True
    then show ?thesis using "1.IH"(1) by (subst (1 2) month_seek.simps) simp
  next
    case False
    show ?thesis
    proof (cases "month_start (n + 1) \<le> z")
      case True
      then show ?thesis using False "1.IH"(2) by (subst (1 2) month_seek.simps) simp
    next
      case False
      then show ?thesis using \<open>\<not> z < month_start n\<close> by (subst (1 2) month_seek.simps) simp
    qed
  qed
qed

lemma month_of_day_bounds:
  "month_start (month_of_day z) \<le> z" "z < month_start (month_of_day z + 1)"
  using month_seek_bounds [of z "((z + 719468) * 4800) div 146097"]
  by (simp_all add: month_of_day_def)

lemma month_start_mono: "n \<le> m \<Longrightarrow> month_start n \<le> month_start m"
proof (induction "nat (m - n)" arbitrary: m)
  case 0
  then show ?case by simp
next
  case (Suc k)
  then have "k = nat (m - 1 - n)" and "n \<le> m - 1" by simp_all
  then have "month_start n \<le> month_start (m - 1)" using Suc.hyps(1) by blast
  moreover have "month_start (m - 1) < month_start m"
    using month_start_step [of "m - 1"] by simp
  ultimately show ?case by simp
qed

lemma first_of_month_le: "first_of_month z \<le> z"
  by (simp add: first_of_month_def month_of_day_bounds)

lemma first_of_month_mono:
  assumes "z \<le> z'"
  shows "first_of_month z \<le> first_of_month z'"
proof (rule ccontr)
  assume "\<not> first_of_month z \<le> first_of_month z'"
  then have lt: "month_start (month_of_day z') < month_start (month_of_day z)"
    by (simp add: first_of_month_def)
  have "\<not> month_of_day z \<le> month_of_day z'"
  proof
    assume "month_of_day z \<le> month_of_day z'"
    then have "month_start (month_of_day z) \<le> month_start (month_of_day z')"
      by (rule month_start_mono)
    with lt show False by simp
  qed
  then have "month_of_day z' + 1 \<le> month_of_day z" by simp
  then have "month_start (month_of_day z' + 1) \<le> month_start (month_of_day z)"
    by (rule month_start_mono)
  also have "\<dots> \<le> z" by (rule month_of_day_bounds)
  also have "z \<le> z'" by (rule assms)
  finally show False using month_of_day_bounds(2) [of z'] by simp
qed

subsection \<open>One pair of the form\<close>

lemma Day_mono: "s \<le> t \<Longrightarrow> Day s \<le> Day t"
  unfolding Day_def by (rule zdiv_mono1) (simp_all add: msPerDay_def)

text \<open>
  How far the month of the reading taken in the loop starts after the month of \<open>now\<close>,
  in days.
\<close>

lemma month_drift_nonneg:
  assumes "now \<le> date0"
  shows "0 \<le> first_of_month (Day (date0 + tz)) - first_of_month (Day (now + tz))"
proof -
  have "Day (now + tz) \<le> Day (date0 + tz)" using assms by (intro Day_mono) simp
  then have "first_of_month (Day (now + tz)) \<le> first_of_month (Day (date0 + tz))"
    by (rule first_of_month_mono)
  then show ?thesis by simp
qed

lemma setDate_from_now:
  "setDate tz date0 (getDate tz now + k) + tz
     = (Day (now + tz) + k
        + (first_of_month (Day (date0 + tz)) - first_of_month (Day (now + tz)))) * msPerDay
       + TimeWithinDay (date0 + tz)"
  by (simp add: setDate_def getDate_def DateFromTime_def day_of_month_def algebra_simps)

lemma candidate_drift:
  assumes "h < 100" and "m < 100"
  shows "candidate tz now date0 dayIndex (hhmm h m)
           = Some ((Day (now + tz) + day_shift tz now dayIndex
                    + (first_of_month (Day (date0 + tz)) - first_of_month (Day (now + tz))))
                     * msPerDay
                   + (int h * 3600000 + int m * 60000) - tz)"
proof -
  let ?k = "day_shift tz now dayIndex"
  let ?e = "first_of_month (Day (date0 + tz)) - first_of_month (Day (now + tz))"
  let ?d1 = "setDate tz date0 (getDate tz now + ?k)"
  have d1: "?d1 + tz = (Day (now + tz) + ?k + ?e) * msPerDay + TimeWithinDay (date0 + tz)"
    by (rule setDate_from_now)
  have "Day (?d1 + tz) = Day (now + tz) + ?k + ?e"
    unfolding d1 using TimeWithinDay_range by (rule Day_of_sum)
  then have "setHours tz ?d1 (Some (int h)) (Some (int m)) 0 0
      = Some ((Day (now + tz) + ?k + ?e) * msPerDay + (int h * 3600000 + int m * 60000) - tz)"
    by (simp add: setHours_def)
  then show ?thesis
    by (simp add: candidate_def Let_def parse_hhmm [OF assms])
qed

lemma occurrence_drift:
  assumes "h < 100" and "m < 100"
    and "c = (Day (now + tz) + day_shift tz now dayIndex
               + (first_of_month (Day (date0 + tz)) - first_of_month (Day (now + tz))))
                * msPerDay
             + (int h * 3600000 + int m * 60000) - tz"
  shows "occurrence tz now date0 dayIndex (hhmm h m)
           = Some (if c \<le> now then c + 7 * msPerDay else c)"
  using candidate_drift [OF assms(1,2)] assms(3)
  by (simp add: occurrence_def setDate_add_days)

lemma occurrence_future:
  assumes "now \<le> date0" and "h < 100" and "m < 100" and "0 \<le> dayIndex"
  shows "\<exists>t. occurrence tz now date0 dayIndex (hhmm h m) = Some t \<and> now < t"
proof -
  define e where "e = first_of_month (Day (date0 + tz)) - first_of_month (Day (now + tz))"
  define k where "k = day_shift tz now dayIndex"
  define c where "c = (Day (now + tz) + k + e) * msPerDay
             + (int h * 3600000 + int m * 60000) - tz"
  have occ: "occurrence tz now date0 dayIndex (hhmm h m)
           = Some (if c \<le> now then c + 7 * msPerDay else c)"
    using assms(2,3) by (rule occurrence_drift) (simp only: c_def k_def e_def)
  have k: "0 \<le> k" unfolding k_def using assms(4) by (rule day_shift_nonneg)
  have e: "0 \<le> e" unfolding e_def using assms(1) by (rule month_drift_nonneg)
  have "Day (now + tz) * msPerDay \<le> (Day (now + tz) + k + e) * msPerDay"
    using k e msPerDay_pos by (simp add: mult_right_mono)
  then have lo: "Day (now + tz) * msPerDay \<le> c + tz" by (simp add: c_def)
  have "now + tz = Day (now + tz) * msPerDay + TimeWithinDay (now + tz)"
    by (simp only: Day_decomp)
  then have "now + tz < Day (now + tz) * msPerDay + msPerDay"
    using TimeWithinDay_range(2) [of "now + tz"] by linarith
  then have "now + tz < c + tz + 7 * msPerDay" using lo msPerDay_pos by linarith
  then have "now < c + 7 * msPerDay" by simp
  then show ?thesis using occ by auto
qed

lemma candidate_spec_drift:
  assumes "0 \<le> dayIndex" and "dayIndex \<le> 6" and "h < 24" and "m < 60"
  shows "candidate tz now date0 dayIndex (hhmm h m)
           = Some (spec_candidate tz now dayIndex h m
                   + (first_of_month (Day (date0 + tz)) - first_of_month (Day (now + tz)))
                     * msPerDay)"
proof -
  have h: "h < 100" and m: "m < 100" using assms(3,4) by simp_all
  show ?thesis
    unfolding candidate_drift [OF h m] spec_candidate_eq [OF assms(1,2)]
    by (simp add: algebra_simps)
qed

lemma occurrence_same_month:
  assumes "0 \<le> dayIndex" and "dayIndex \<le> 6" and "h < 24" and "m < 60"
    and "first_of_month (Day (date0 + tz)) = first_of_month (Day (now + tz))"
  shows "candidate tz now date0 dayIndex (hhmm h m) = Some (spec_candidate tz now dayIndex h m)
       \<and> occurrence tz now date0 dayIndex (hhmm h m)
           = Some (if spec_candidate tz now dayIndex h m \<le> now
                   then spec_candidate tz now dayIndex h m + 7 * msPerDay
                   else spec_candidate tz now dayIndex h m)"
proof -
  have c: "candidate tz now date0 dayIndex (hhmm h m) = Some (spec_candidate tz now dayIndex h m)"
    using candidate_spec_drift [OF assms(1-4), of tz now date0] by (simp add: assms(5))
  then show ?thesis by (simp add: occurrence_def setDate_add_days)
qed


text \<open>
  C5. The rule (the local date of \<open>now\<close> plus \<open>(targetDay - currentDay + 7) mod 7\<close> days
  at the target hour and minute, and exactly seven days more when that is not after
  \<open>now\<close>) is not what the code yields when the reading of the clock taken inside the
  loop falls in the month after that of \<open>now\<close>: \<open>setDate\<close> counts the day of the month of
  \<open>now\<close> on from the first of the month of that reading. With \<open>now\<close> the last
  millisecond of Wednesday 31 January 2024, the reading one millisecond later, weekday
  3 and time \<open>09:00\<close>: the candidate of the rule is 31 January 09:00, which is not
  after \<open>now\<close>, so the rule chooses 7 February 09:00 (day 19760); the code yields
  2 March 09:00 (day 19784), a Saturday.
\<close>

theorem next_occurrence_month_end:
  "getDay 0 january_end = 3 \<and> getDate 0 january_end = 31
   \<and> getDate 0 (january_end + 1) = 1
   \<and> spec_candidate 0 january_end 3 9 0 = 19753 * msPerDay + 9 * 3600000
   \<and> spec_candidate 0 january_end 3 9 0 \<le> january_end
   \<and> spec_candidate 0 january_end 3 9 0 + 7 * msPerDay = 19760 * msPerDay + 9 * 3600000
   \<and> candidate 0 january_end (january_end + 1) 3 ''09:00''
       = Some (19784 * msPerDay + 9 * 3600000)
   \<and> occurrence 0 january_end (january_end + 1) 3 ''09:00''
       = Some (19784 * msPerDay + 9 * 3600000)
   \<and> occurrence 0 january_end (january_end + 1) 3 ''09:00''
       \<noteq> Some (spec_candidate 0 january_end 3 9 0 + 7 * msPerDay)"
  by code_simp


subsection \<open>The whole form\<close>

lemma length_concat_map_const:
  "\<forall>x\<in>set xs. length (f x) = n \<Longrightarrow> length (concat (map f xs)) = length xs * n"
  by (induction xs) simp_all

lemma pair_index_bound:
  fixes i j a b :: nat
  assumes "i < a" and "j < b"
  shows "i * b + j < a * b"
proof -
  have "i * b + j < i * b + b" using assms(2) by simp
  also have "\<dots> = Suc i * b" by simp
  also have "\<dots> \<le> a * b" using assms(1) by (intro mult_le_mono1) simp
  finally show ?thesis .
qed

lemma concat_map_pairs_nth:
  assumes "i < length xs" and "j < length ys"
  shows "concat (map (\<lambda>x. map (f x) ys) xs) ! (i * length ys + j) = f (xs ! i) (ys ! j)"
proof -
  have eq: "concat (map (\<lambda>x. map (f x) ys) xs) = map (\<lambda>(x, y). f x y) (List.product xs ys)"
    by (simp add: product_concat_map map_concat comp_def)
  have n: "i * length ys + j < length xs * length ys"
    using assms by (rule pair_index_bound)
  have z: "length ys \<noteq> 0" using assms(2) by auto
  have "(i * length ys + j) div length ys = i + j div length ys"
    using z by (rule div_mult_self3)
  then have d: "(i * length ys + j) div length ys = i" using assms(2) by simp
  have "(i * length ys + j) mod length ys = j mod length ys"
    by (rule mod_mult_self3)
  then have m: "(i * length ys + j) mod length ys = j" using assms(2) by simp
  have "List.product xs ys ! (i * length ys + j) = (xs ! i, ys ! j)"
    using product_nth [OF n] by (simp only: d m)
  then show ?thesis using n by (simp add: eq)
qed


lemma in_concat_map_pairs:
  "b \<in> set (concat (map (\<lambda>x. map (f x) ys) xs)) \<Longrightarrow> \<exists>x\<in>set xs. \<exists>y\<in>set ys. b = f x y"
  by auto

lemma in_set_enumerate_0:
  "p \<in> set (enumerate 0 xs) \<Longrightarrow> fst p < length xs \<and> snd p = xs ! fst p"
  by (auto simp: in_set_enumerate_eq)

text \<open>
  A clock that runs backwards over the start of a month yields a time in the past: with
  \<open>now\<close> half a second into 1 February 2024 and the reading one second earlier, weekday
  4 at \<open>00:00\<close> is scheduled for 8 January 2024.
\<close>

lemma backward_clock_past_time:
  "just_before february_start 0 0 < february_start
   \<and> submitSchedule 0 february_start (just_before february_start) ''drive-file''
        (week_form\<lparr>f_times := [''00:00''], f_days := [4]\<rparr>)
       = Inr [schedule_entry ''drive-file'' (week_form\<lparr>f_times := [''00:00''], f_days := [4]\<rparr>)
                (Some (19730 * msPerDay))]
   \<and> 19730 * msPerDay < february_start"
  by code_simp


text \<open>
  C4. For a non-empty list of weekday indices and a non-empty list of \<open>HH:MM\<close> texts the
  expansion is accepted and yields one request per pair, \<open>|D| \<times> |T|\<close> in all, in the
  order of the loops. The request of the pair \<open>(i, j)\<close> carries the fields of the form
  and the time that \<open>occurrence\<close> gives for that pair, and this \<open>scheduledTime\<close> is
  strictly after the instant \<open>now\<close> at which the expansion started. The clock does not
  run backwards: no reading taken inside the loops is before \<open>now\<close>; the readings may
  fall on a later day or in a later month than \<open>now\<close>.
\<close>

theorem expansion_count_and_future:
  assumes "f_days fd \<noteq> []" and "\<forall>d\<in>set (f_days fd). 0 \<le> d \<and> d \<le> 6"
    and "f_times fd \<noteq> []" and "\<forall>t\<in>set (f_times fd). is_hhmm t"
    and "\<forall>i<length (f_days fd). \<forall>j<length (f_times fd). now \<le> clock i j"
  shows "\<exists>bs. submitSchedule tz now clock fileId fd = Inr bs
            \<and> length bs = length (f_days fd) * length (f_times fd)
            \<and> (distinct (f_days fd) \<longrightarrow> length bs = card (set (f_days fd)) * length (f_times fd))
            \<and> (\<forall>i<length (f_days fd). \<forall>j<length (f_times fd).
                  \<exists>t. occurrence tz now (clock i j) (f_days fd ! i) (f_times fd ! j) = Some t
                     \<and> bs ! (i * length (f_times fd) + j) = schedule_entry fileId fd (Some t)
                     \<and> now < t)
            \<and> (\<forall>b\<in>set bs. \<exists>t. b = schedule_entry fileId fd (Some t)
                     \<and> b_scheduledTime b = Some t \<and> now < t)"
proof -
  let ?D = "enumerate 0 (f_days fd)" and ?T = "enumerate 0 (f_times fd)"
  let ?f = "\<lambda>p q. schedule_entry fileId fd (occurrence tz now (clock (fst p) (fst q)) (snd p) (snd q))"
  let ?bs = "concat (map (\<lambda>p. map (?f p) ?T) ?D)"
  have res: "submitSchedule tz now clock fileId fd = Inr ?bs"
    using assms(1,3) by (simp add: submitSchedule_def case_prod_unfold)
  have "\<forall>p\<in>set ?D. length (map (?f p) ?T) = length (f_times fd)"
    by simp
  then have "length ?bs = length ?D * length (f_times fd)"
    by (rule length_concat_map_const)
  then have len: "length ?bs = length (f_days fd) * length (f_times fd)" by simp
  have card: "distinct (f_days fd) \<longrightarrow> length ?bs = card (set (f_days fd)) * length (f_times fd)"
    using len by (simp add: distinct_card)
  have at: "\<exists>t. occurrence tz now (clock i j) (f_days fd ! i) (f_times fd ! j) = Some t
                     \<and> ?bs ! (i * length (f_times fd) + j) = schedule_entry fileId fd (Some t)
                     \<and> now < t"
    if i: "i < length (f_days fd)" and j: "j < length (f_times fd)" for i j
  proof -
    have "?bs ! (i * length ?T + j) = ?f (?D ! i) (?T ! j)"
      using i j by (intro concat_map_pairs_nth) simp_all
    then have b: "?bs ! (i * length (f_times fd) + j)
        = schedule_entry fileId fd (occurrence tz now (clock i j) (f_days fd ! i) (f_times fd ! j))"
      using i j by (simp add: nth_enumerate_eq)
    have d: "0 \<le> f_days fd ! i" using assms(2) i by simp
    have "is_hhmm (f_times fd ! j)" using assms(4) j by simp
    then obtain h m where hm: "h < 24" "m < 60" "f_times fd ! j = hhmm h m"
      using is_hhmm_hhmm by blast
    have c: "now \<le> clock i j" using assms(5) i j by simp
    have "\<exists>t. occurrence tz now (clock i j) (f_days fd ! i) (hhmm h m) = Some t \<and> now < t"
      using c _ _ d by (rule occurrence_future) (use hm in simp_all)
    then show ?thesis using b hm(3) by auto
  qed
  have fut: "\<forall>b\<in>set ?bs. \<exists>t. b = schedule_entry fileId fd (Some t)
                     \<and> b_scheduledTime b = Some t \<and> now < t"
  proof
    fix b assume "b \<in> set ?bs"
    then have "\<exists>p\<in>set ?D. \<exists>q\<in>set ?T. b = ?f p q"
      by (rule in_concat_map_pairs)
    then obtain p q where p: "p \<in> set ?D" and q: "q \<in> set ?T" and b: "b = ?f p q"
      by blast
    have pi: "fst p < length (f_days fd)" "snd p = f_days fd ! fst p"
      using in_set_enumerate_0 [OF p] by simp_all
    have qi: "fst q < length (f_times fd)" "snd q = f_times fd ! fst q"
      using in_set_enumerate_0 [OF q] by simp_all
    obtain t where "occurrence tz now (clock (fst p) (fst q)) (f_days fd ! fst p)
                      (f_times fd ! fst q) = Some t" "now < t"
      using at [OF pi(1) qi(1)] by blast
    then have "occurrence tz now (clock (fst p) (fst q)) (snd p) (snd q) = Some t" "now < t"
      by (simp_all only: pi(2) qi(2))
    then show "\<exists>t. b = schedule_entry fileId fd (Some t) \<and> b_scheduledTime b = Some t \<and> now < t"
      using b by (simp add: schedule_entry_def)
  qed
  have all: "\<forall>i<length (f_days fd). \<forall>j<length (f_times fd).
                  \<exists>t. occurrence tz now (clock i j) (f_days fd ! i) (f_times fd ! j) = Some t
                     \<and> ?bs ! (i * length (f_times fd) + j) = schedule_entry fileId fd (Some t)
                     \<and> now < t"
    using at by blast
  from res len card all fut show ?thesis
    by (intro exI [of _ ?bs] conjI)
qed

theorem expansion_count_and_future_witness:
  "f_days week_form = [1, 3] \<and> f_times week_form = [''09:00'', ''18:30'']
   \<and> list_all is_hhmm (f_times week_form)
   \<and> tuesday_10 \<le> soon_after tuesday_10 1 1
   \<and> january_end \<le> soon_after january_end 1 1
   \<and> Day january_end < Day (soon_after january_end 1 1)
   \<and> (\<exists>bs. submitSchedule 0 tuesday_10 (soon_after tuesday_10) ''drive-file'' week_form = Inr bs
          \<and> length bs = 4
          \<and> bs = map (\<lambda>t. schedule_entry ''drive-file'' week_form (Some t))
                    [tuesday_10 + 6 * msPerDay - 3600000,
                     tuesday_10 + 6 * msPerDay + 8 * 3600000 + 1800000,
                     tuesday_10 + msPerDay - 3600000,
                     tuesday_10 + msPerDay + 8 * 3600000 + 1800000]
          \<and> list_all (\<lambda>b. case b_scheduledTime b of None \<Rightarrow> False | Some t \<Rightarrow> tuesday_10 < t) bs)
   \<and> (\<exists>bs. submitSchedule 0 january_end (soon_after january_end) ''drive-file'' week_form = Inr bs
          \<and> length bs = 4
          \<and> bs = map (\<lambda>t. schedule_entry ''drive-file'' week_form (Some t))
                    [19789 * msPerDay + 9 * 3600000,
                     19789 * msPerDay + 18 * 3600000 + 1800000,
                     19784 * msPerDay + 9 * 3600000,
                     19784 * msPerDay + 18 * 3600000 + 1800000]
          \<and> list_all (\<lambda>b. case b_scheduledTime b of None \<Rightarrow> False | Some t \<Rightarrow> january_end < t) bs)"
proof -
  have a1: "f_days week_form \<noteq> []" and a3: "f_times week_form \<noteq> []"
    by (simp_all add: week_form_def)
  have a2: "\<forall>d\<in>set (f_days week_form). 0 \<le> d \<and> d \<le> 6"
    by (simp add: week_form_def)
  have a4: "\<forall>t\<in>set (f_times week_form). is_hhmm t"
    by (simp add: week_form_def is_hhmm_def in_radix_def digit_of_def digit_value_def)
  have a5: "\<forall>i<length (f_days week_form). \<forall>j<length (f_times week_form). now \<le> soon_after now i j"
    for now
    by (simp add: soon_after_def)
  have f1: "f_days week_form = [1, 3]" and f2: "f_times week_form = [''09:00'', ''18:30'']"
    by (simp_all add: week_form_def)
  have h: "list_all is_hhmm (f_times week_form)" using a4 by (simp only: list_all_iff)
  have c1: "tuesday_10 \<le> soon_after tuesday_10 1 1" and c2: "january_end \<le> soon_after january_end 1 1"
    by (simp_all add: soon_after_def)
  have c3: "Day january_end < Day (soon_after january_end 1 1)"
    by (simp add: soon_after_def january_end_def Day_def msPerDay_def)
  have v1: "submitSchedule 0 tuesday_10 (soon_after tuesday_10) ''drive-file'' week_form
       = Inr (map (\<lambda>t. schedule_entry ''drive-file'' week_form (Some t))
                    [tuesday_10 + 6 * msPerDay - 3600000,
                     tuesday_10 + 6 * msPerDay + 8 * 3600000 + 1800000,
                     tuesday_10 + msPerDay - 3600000,
                     tuesday_10 + msPerDay + 8 * 3600000 + 1800000])"
    by code_simp
  have v2: "submitSchedule 0 january_end (soon_after january_end) ''drive-file'' week_form
       = Inr (map (\<lambda>t. schedule_entry ''drive-file'' week_form (Some t))
                    [19789 * msPerDay + 9 * 3600000,
                     19789 * msPerDay + 18 * 3600000 + 1800000,
                     19784 * msPerDay + 9 * 3600000,
                     19784 * msPerDay + 18 * 3600000 + 1800000])"
    by code_simp
  have la: "list_all (\<lambda>b. case b_scheduledTime b of None \<Rightarrow> False | Some t \<Rightarrow> now < t) bs"
    if all: "\<forall>b\<in>set bs. \<exists>t. b = schedule_entry ''drive-file'' week_form (Some t)
                     \<and> b_scheduledTime b = Some t \<and> now < t" for bs now
    unfolding list_all_iff
  proof
    fix b assume "b \<in> set bs"
    then obtain t where "b_scheduledTime b = Some t" "now < t" using all by blast
    then show "case b_scheduledTime b of None \<Rightarrow> False | Some t \<Rightarrow> now < t" by simp
  qed
  obtain bs where bs: "submitSchedule 0 tuesday_10 (soon_after tuesday_10) ''drive-file'' week_form = Inr bs"
    and len: "length bs = length (f_days week_form) * length (f_times week_form)"
    and fut: "\<forall>b\<in>set bs. \<exists>t. b = schedule_entry ''drive-file'' week_form (Some t)
                     \<and> b_scheduledTime b = Some t \<and> tuesday_10 < t"
    using expansion_count_and_future [OF a1 a2 a3 a4 a5, where tz = 0 and now = tuesday_10
        and fileId = "''drive-file''"] by blast
  obtain cs where cs: "submitSchedule 0 january_end (soon_after january_end) ''drive-file'' week_form = Inr cs"
    and len': "length cs = length (f_days week_form) * length (f_times week_form)"
    and fut': "\<forall>b\<in>set cs. \<exists>t. b = schedule_entry ''drive-file'' week_form (Some t)
                     \<and> b_scheduledTime b = Some t \<and> january_end < t"
    using expansion_count_and_future [OF a1 a2 a3 a4 a5, where tz = 0 and now = january_end
        and fileId = "''drive-file''"] by blast
  have l4: "length bs = 4" "length cs = 4" using len len' by (simp_all add: week_form_def)
  have e1: "bs = map (\<lambda>t. schedule_entry ''drive-file'' week_form (Some t))
                    [tuesday_10 + 6 * msPerDay - 3600000,
                     tuesday_10 + 6 * msPerDay + 8 * 3600000 + 1800000,
                     tuesday_10 + msPerDay - 3600000,
                     tuesday_10 + msPerDay + 8 * 3600000 + 1800000]"
    using bs unfolding v1 by simp
  have e2: "cs = map (\<lambda>t. schedule_entry ''drive-file'' week_form (Some t))
                    [19789 * msPerDay + 9 * 3600000,
                     19789 * msPerDay + 18 * 3600000 + 1800000,
                     19784 * msPerDay + 9 * 3600000,
                     19784 * msPerDay + 18 * 3600000 + 1800000]"
    using cs unfolding v2 by simp
  have t1: "\<exists>bs. submitSchedule 0 tuesday_10 (soon_after tuesday_10) ''drive-file'' week_form = Inr bs
          \<and> length bs = 4
          \<and> bs = map (\<lambda>t. schedule_entry ''drive-file'' week_form (Some t))
                    [tuesday_10 + 6 * msPerDay - 3600000,
                     tuesday_10 + 6 * msPerDay + 8 * 3600000 + 1800000,
                     tuesday_10 + msPerDay - 3600000,
                     tuesday_10 + msPerDay + 8 * 3600000 + 1800000]
          \<and> list_all (\<lambda>b. case b_scheduledTime b of None \<Rightarrow> False | Some t \<Rightarrow> tuesday_10 < t) bs"
    using bs l4(1) e1 la [OF fut] by (intro exI [of _ bs] conjI)
  have t2: "\<exists>bs. submitSchedule 0 january_end (soon_after january_end) ''drive-file'' week_form = Inr bs
          \<and> length bs = 4
          \<and> bs = map (\<lambda>t. schedule_entry ''drive-file'' week_form (Some t))
                    [19789 * msPerDay + 9 * 3600000,
                     19789 * msPerDay + 18 * 3600000 + 1800000,
                     19784 * msPerDay + 9 * 3600000,
                     19784 * msPerDay + 18 * 3600000 + 1800000]
          \<and> list_all (\<lambda>b. case b_scheduledTime b of None \<Rightarrow> False | Some t \<Rightarrow> january_end < t) bs"
    using cs l4(2) e2 la [OF fut'] by (intro exI [of _ cs] conjI)
  from f1 f2 h c1 c2 c3 t1 t2 show ?thesis
    by (intro conjI)
qed
end
